theory Spec2Isabelle
  imports Complex_Main "HOL-Library.Word" "HOL-Library.Sublist" "HOL-Library.Multiset"
begin

unbundle bit_operations_syntax

section \<open>JavaScript strings\<close>

text \<open>
  A JavaScript string is a sequence of UTF-16 code units; \<open>length\<close>, \<open>slice\<close>,
  \<open>lastIndexOf\<close> and regular expressions without the \<open>u\<close> flag all count code
  units. \<open>utf16\<close> writes an ASCII literal as such a string.
\<close>

type_synonym code_unit = "16 word"
type_synonym jsstring = "code_unit list"

definition utf16 :: "string \<Rightarrow> jsstring" where
  "utf16 s = map (\<lambda>c. of_char c) s"

text \<open>
  ECMAScript's WhiteSpace and LineTerminator code points. \<open>String.prototype.trim\<close> and
  the regular-expression class \<open>\s\<close> use the same set.
\<close>

definition isWhiteSpace :: "code_unit \<Rightarrow> bool" where
  "isWhiteSpace c \<longleftrightarrow>
     c \<in> {0x09, 0x0A, 0x0B, 0x0C, 0x0D, 0x20, 0xA0, 0x1680, 0x2028, 0x2029,
          0x202F, 0x205F, 0x3000, 0xFEFF} \<or> (0x2000 \<le> c \<and> c \<le> 0x200A)"

definition trim :: "jsstring \<Rightarrow> jsstring" where
  "trim s = rev (dropWhile isWhiteSpace (rev (dropWhile isWhiteSpace s)))"

text \<open>\<open>s.lastIndexOf(pat)\<close>: the greatest index where \<open>pat\<close> starts, or \<open>-1\<close>.\<close>

definition lastIndexOf :: "jsstring \<Rightarrow> jsstring \<Rightarrow> int" where
  "lastIndexOf s pat =
     (case filter (\<lambda>k. prefix pat (drop k s)) (rev [0..<Suc (length s)]) of
        [] \<Rightarrow> - 1
      | k # _ \<Rightarrow> int k)"

text \<open>\<open>s.slice(start, fin)\<close>; a negative index counts from the end.\<close>

definition slice :: "jsstring \<Rightarrow> int \<Rightarrow> int \<Rightarrow> jsstring" where
  "slice s start fin =
     (let len = int (length s);
          from = (if start < 0 then max (len + start) 0 else min start len);
          to = (if fin < 0 then max (len + fin) 0 else min fin len)
      in take (nat (to - from)) (drop (nat from) s))"

text \<open>\<open>s.slice(start)\<close>: the end defaults to the length.\<close>

definition slice_from :: "jsstring \<Rightarrow> int \<Rightarrow> jsstring" where
  "slice_from s start = slice s start (int (length s))"

text \<open>\<open>s.split(sep)\<close> and \<open>lines.join(sep)\<close> for a separator of one code unit.\<close>

fun split :: "code_unit \<Rightarrow> jsstring \<Rightarrow> jsstring list" where
  "split sep [] = [[]]"
| "split sep (c # cs) =
     (if c = sep then [] # split sep cs
      else (case split sep cs of [] \<Rightarrow> [[c]] | l # ls \<Rightarrow> (c # l) # ls))"

fun join :: "code_unit \<Rightarrow> jsstring list \<Rightarrow> jsstring" where
  "join sep [] = []"
| "join sep [l] = l"
| "join sep (l # ls) = l @ sep # join sep ls"

section \<open>The deterministic provider's text cleanup\<close>

text \<open>
  The regular expression \<open>/<\|[^>]+?\|>/g\<close>. After \<open><|\<close> and one code unit other
  than \<open>>\<close>, the lazy quantifier stops at the first place where \<open>|>\<close> follows;
  it gives up at a \<open>>\<close> or at the end of the string. \<open>tagBody\<close> is that scan and
  returns what follows the match.
\<close>

fun tagBody :: "jsstring \<Rightarrow> jsstring option" where
  "tagBody [] = None"
| "tagBody (c # cs) =
     (if c = 0x7C \<and> (case cs of [] \<Rightarrow> False | d # _ \<Rightarrow> d = 0x3E) then Some (tl cs)
      else if c \<noteq> 0x3E then tagBody cs
      else None)"

fun matchTag :: "jsstring \<Rightarrow> jsstring option" where
  "matchTag (a # b # c # cs) =
     (if a = 0x3C \<and> b = 0x7C \<and> c \<noteq> 0x3E then tagBody cs else None)"
| "matchTag _ = None"

lemma tagBody_length: "tagBody s = Some r \<Longrightarrow> length r < length s"
  by (induction s) (auto split: if_splits list.splits)

lemma matchTag_length: "matchTag s = Some r \<Longrightarrow> length r < length s"
  by (cases s rule: matchTag.cases) (auto split: if_splits dest: tagBody_length)

text \<open>
  \<open>.replace(/<\|[^>]+?\|>/g, "")\<close>: scanning from the left, a match is dropped and the
  scan goes on after it; where nothing matches, the code unit is kept.
\<close>

function removeTags :: "jsstring \<Rightarrow> jsstring" where
  "removeTags [] = []"
| "removeTags (c # cs) =
     (case matchTag (c # cs) of
        Some rest \<Rightarrow> removeTags rest
      | None \<Rightarrow> c # removeTags cs)"
  by pat_completeness auto
termination
  by (relation "measure length") (auto dest: matchTag_length)

text \<open>
  \<open>line.replace(/^\s*>\s?/, "")\<close>: at the start of the line, all white space, one
  \<open>>\<close>, and one more white-space code unit if there is one.
\<close>

definition stripBlockquote :: "jsstring \<Rightarrow> jsstring" where
  "stripBlockquote line =
     (case dropWhile isWhiteSpace line of
        [] \<Rightarrow> line
      | c # cs \<Rightarrow>
          if c = 0x3E
          then (case cs of [] \<Rightarrow> [] | d # ds \<Rightarrow> if isWhiteSpace d then ds else cs)
          else line)"

definition END_TAG :: jsstring where
  "END_TAG = utf16 ''<|end|>''"

text \<open>The constant \<open>withoutPreceding\<close> of \<open>parseEigenMessage\<close>, as a function of \<open>trimmed\<close>.\<close>

definition withoutPreceding :: "jsstring \<Rightarrow> jsstring" where
  "withoutPreceding trimmed =
     (let lastEndTag = lastIndexOf trimmed END_TAG
      in if lastEndTag \<noteq> - 1 then slice_from trimmed (lastEndTag + 6) else trimmed)"

definition parseEigenMessage :: "jsstring \<Rightarrow> jsstring" where
  "parseEigenMessage raw =
     (let trimmed = trim raw in
      if trimmed = [] then trimmed
      else
        let cleanedTags = removeTags (withoutPreceding trimmed)
        in trim (join 0x0A (map stripBlockquote (split 0x0A cleanedTags))))"

text \<open>
  Already-clean text, in the words of the specification: no white space at either end, no
  \<open><|...|>\<close> token anywhere, and no line that starts with a blockquote marker.
\<close>

definition noBlockquote :: "jsstring \<Rightarrow> bool" where
  "noBlockquote line =
     (case dropWhile isWhiteSpace line of [] \<Rightarrow> True | c # _ \<Rightarrow> c \<noteq> 0x3E)"

definition isClean :: "jsstring \<Rightarrow> bool" where
  "isClean s \<longleftrightarrow>
     trim s = s
     \<and> list_all (\<lambda>k. matchTag (drop k s) = None) [0..<Suc (length s)]
     \<and> list_all noBlockquote (split 0x0A s)"

section \<open>The seed derived from a UUID\<close>

text \<open>
  \<open>Number.parseInt(string, 16)\<close>: leading white space is skipped, then an optional sign
  and an optional \<open>0x\<close> or \<open>0X\<close>; the longest run of hexadecimal digits that follows is
  the value, and \<open>None\<close> stands for NaN when that run is empty. The value is exact as
  long as it is below \<open>2^53\<close>; \<open>uuidToSeed\<close> passes at most eight code units.
\<close>

definition hexDigit :: "code_unit \<Rightarrow> int option" where
  "hexDigit c =
     (if 0x30 \<le> c \<and> c \<le> 0x39 then Some (uint c - 0x30)
      else if 0x61 \<le> c \<and> c \<le> 0x66 then Some (uint c - 0x61 + 10)
      else if 0x41 \<le> c \<and> c \<le> 0x46 then Some (uint c - 0x41 + 10)
      else None)"

definition hexValue :: "jsstring \<Rightarrow> int" where
  "hexValue z =
     foldl (\<lambda>acc c. 16 * acc + (case hexDigit c of None \<Rightarrow> 0 | Some d \<Rightarrow> d)) 0 z"

definition parseInt16 :: "jsstring \<Rightarrow> int option" where
  "parseInt16 string =
     (let S = dropWhile isWhiteSpace string;
          sign = (case S of [] \<Rightarrow> 1 | c # _ \<Rightarrow> if c = 0x2D then - 1 else 1);
          S1 = (case S of [] \<Rightarrow> S | c # cs \<Rightarrow> if c = 0x2B \<or> c = 0x2D then cs else S);
          S2 = (if prefix (utf16 ''0x'') S1 \<or> prefix (utf16 ''0X'') S1 then drop 2 S1 else S1);
          Z = takeWhile (\<lambda>c. hexDigit c \<noteq> None) S2
      in if Z = [] then None else Some (sign * hexValue Z))"

text \<open>
  \<open>uuid.replace(/-/g, "")\<close> drops every hyphen. \<open>value || 0\<close> turns NaN and zero into
  \<open>0\<close>. \<open>value & 0x7fffffff\<close> converts to a 32-bit integer, wrapping around, and
  yields a signed 32-bit integer.
\<close>

definition uuidToSeed :: "jsstring \<Rightarrow> int" where
  "uuidToSeed uuid =
     (let hex = slice (filter (\<lambda>c. c \<noteq> 0x2D) uuid) 0 8;
          value = (case parseInt16 hex of None \<Rightarrow> 0 | Some v \<Rightarrow> if v = 0 then 0 else v)
      in sint ((word_of_int value :: 32 word) AND 0x7fffffff))"

text \<open>
  The text form of a version-4 UUID: 36 code units, hyphens at positions 8, 13, 18 and 23,
  hexadecimal digits elsewhere, the version digit \<open>4\<close> and a variant digit among
  \<open>8\<close>, \<open>9\<close>, \<open>a\<close>, \<open>b\<close>.
\<close>

definition isUuidV4 :: "jsstring \<Rightarrow> bool" where
  "isUuidV4 u \<longleftrightarrow>
     length u = 36
     \<and> list_all (\<lambda>i. if i \<in> {8, 13, 18, 23} then u ! i = 0x2D else hexDigit (u ! i) \<noteq> None)
         [0..<36]
     \<and> u ! 14 = 0x34
     \<and> u ! 19 \<in> {0x38, 0x39, 0x61, 0x62, 0x41, 0x42}"

section \<open>JavaScript numbers\<close>

text \<open>
  A JavaScript number is NaN, an infinity or a finite double. \<open>Math.floor\<close>,
  \<open>Math.max\<close> and \<open>Math.min\<close> never round: on finite arguments they return the exact
  real result, which is a double again. Negative zero is identified with zero.
\<close>

datatype number = NaN | PosInf | NegInf | Fin real

fun Math_floor :: "number \<Rightarrow> number" where
  "Math_floor (Fin x) = Fin (of_int \<lfloor>x\<rfloor>)"
| "Math_floor v = v"

fun Math_max :: "number \<Rightarrow> number \<Rightarrow> number" where
  "Math_max NaN _ = NaN"
| "Math_max _ NaN = NaN"
| "Math_max PosInf _ = PosInf"
| "Math_max _ PosInf = PosInf"
| "Math_max NegInf b = b"
| "Math_max a NegInf = a"
| "Math_max (Fin a) (Fin b) = Fin (max a b)"

fun Math_min :: "number \<Rightarrow> number \<Rightarrow> number" where
  "Math_min NaN _ = NaN"
| "Math_min _ NaN = NaN"
| "Math_min NegInf _ = NegInf"
| "Math_min _ NegInf = NegInf"
| "Math_min PosInf b = b"
| "Math_min a PosInf = a"
| "Math_min (Fin a) (Fin b) = Fin (min a b)"

definition clamp :: "number \<Rightarrow> number \<Rightarrow> number \<Rightarrow> number" where
  "clamp value lo hi = Math_min (Math_max value lo) hi"

text \<open>
  The run count of \<open>POST\<close>: \<open>clamp(Math.floor(body.runs ?? 4), MIN_RUNS, MAX_RUNS)\<close>.
  \<open>MIN_RUNS\<close> and \<open>MAX_RUNS\<close> come from a module that is not part of the sources at
  hand; they are parameters here, counts of runs.
\<close>

definition effectiveRuns :: "nat \<Rightarrow> nat \<Rightarrow> number option \<Rightarrow> number" where
  "effectiveRuns MIN_RUNS MAX_RUNS runs =
     clamp (Math_floor (case runs of None \<Rightarrow> Fin 4 | Some v \<Rightarrow> v))
       (Fin (real MIN_RUNS)) (Fin (real MAX_RUNS))"

text \<open>Errors that reject a promise.\<close>

datatype jsError =
    HttpError jsstring nat jsstring
  | FetchError jsstring
  | AbortError
  | SyntaxError
  | RangeError

text \<open>
  \<open>Array.from({ length: len }, ...)\<close>: the length is truncated to an integer, NaN and
  negative values count as \<open>0\<close>, and a length above \<open>2^32 - 1\<close> raises a RangeError.
\<close>

definition arrayLength :: "number \<Rightarrow> jsError + nat" where
  "arrayLength len =
     (case len of
        NaN \<Rightarrow> Inr 0
      | NegInf \<Rightarrow> Inr 0
      | PosInf \<Rightarrow> Inl RangeError
      | Fin x \<Rightarrow>
          if x \<le> 0 then Inr 0
          else if \<lfloor>x\<rfloor> > 2 ^ 32 - 1 then Inl RangeError
          else Inr (nat \<lfloor>x\<rfloor>))"

section \<open>Upstream chat completions\<close>

record Usage =
  prompt_tokens :: "number option"
  completion_tokens :: "number option"
  total_tokens :: "number option"

record ChatMessage =
  content :: "jsstring option"

record ChatChoice =
  message :: "ChatMessage option"
  finish_reason :: "jsstring option"

record ChatResponse =
  id' :: "jsstring option"
  choices :: "ChatChoice list option"
  usage :: "Usage option"

text \<open>
  What one \<open>fetch\<close> comes to. \<open>FetchRejects\<close>: the promise of \<open>fetch\<close>, or the reading
  of the body, rejects: a transport failure, or the AbortError that the 20 second timer of
  \<open>collectOpenAiRuns\<close> causes. \<open>Responds status text json\<close>: a response with its
  status, its body as \<open>response.text()\<close> gives it, and as \<open>response.json()\<close> gives it
  (\<open>None\<close> when the body is not JSON).
\<close>

datatype reply =
    FetchRejects jsError
  | Responds nat jsstring "ChatResponse option"

definition ok :: "nat \<Rightarrow> bool" where
  "ok status \<longleftrightarrow> 200 \<le> status \<and> status \<le> 299"

record ProviderRunResult =
  responseId :: "jsstring option"
  message :: jsstring
  finishReason :: "jsstring option"
  usage :: "Usage option"

datatype ('e, 'a) settled = Fulfilled 'a | Rejected 'e

definition extractMessage :: "ChatResponse \<Rightarrow> jsstring option" where
  "extractMessage data =
     (case choices data of
        None \<Rightarrow> None
      | Some [] \<Rightarrow> None
      | Some (choice # _) \<Rightarrow>
          (case ChatChoice.message choice of
             None \<Rightarrow> None
           | Some m \<Rightarrow> map_option trim (content m)))"

text \<open>\<open>data.choices?.[0]?.finish_reason\<close>\<close>

definition firstFinishReason :: "ChatResponse \<Rightarrow> jsstring option" where
  "firstFinishReason data =
     (case choices data of
        None \<Rightarrow> None
      | Some [] \<Rightarrow> None
      | Some (choice # _) \<Rightarrow> finish_reason choice)"

text \<open>
  The asynchronous function that \<open>collectOpenAiRuns\<close> runs for each element, as a
  function of what its \<open>fetch\<close> comes to. \<open>HttpError p status text\<close> is the
  \<open>Error\<close> with the message \<open>p HTTP status: text\<close>.
\<close>

definition openAiRun :: "reply \<Rightarrow> (jsError, ProviderRunResult) settled" where
  "openAiRun r =
     (case r of
        FetchRejects e \<Rightarrow> Rejected e
      | Responds status text json \<Rightarrow>
          if \<not> ok status then Rejected (HttpError (utf16 ''OpenAI'') status text)
          else (case json of
                  None \<Rightarrow> Rejected SyntaxError
                | Some data \<Rightarrow>
                    Fulfilled
                      \<lparr>responseId = id' data,
                       message = (case extractMessage data of None \<Rightarrow> [] | Some m \<Rightarrow> m),
                       finishReason = firstFinishReason data,
                       usage = ChatResponse.usage data\<rparr>))"

definition callEigenAiRun :: "reply \<Rightarrow> (jsError, ProviderRunResult) settled" where
  "callEigenAiRun r =
     (case r of
        FetchRejects e \<Rightarrow> Rejected e
      | Responds status text json \<Rightarrow>
          if \<not> ok status then Rejected (HttpError (utf16 ''EigenAI'') status text)
          else (case json of
                  None \<Rightarrow> Rejected SyntaxError
                | Some data \<Rightarrow>
                    Fulfilled
                      \<lparr>responseId = id' data,
                       message =
                         parseEigenMessage
                           (case extractMessage data of None \<Rightarrow> [] | Some m \<Rightarrow> m),
                       finishReason = firstFinishReason data,
                       usage = ChatResponse.usage data\<rparr>))"

section \<open>Promise.all\<close>

text \<open>
  \<open>Promise.all\<close> keeps one slot for each element of its argument. When element \<open>i\<close>
  fulfils, its value goes to slot \<open>i\<close>, and once no slot is empty the promise fulfils
  with the values in the order of the slots. When an element rejects, the promise rejects
  with that error. A promise that is settled stays as it is. An element settles once:
  what arrives for a slot that is filled, or for no slot, is ignored.
\<close>

record ('e, 'a) promiseAll =
  slots :: "'a option list"
  settledAs :: "('e, 'a list) settled option"

definition allInit :: "nat \<Rightarrow> ('e, 'a) promiseAll" where
  "allInit n =
     \<lparr>slots = replicate n None,
      settledAs = map_option Fulfilled (those (replicate n None))\<rparr>"

definition allSettle ::
    "nat \<Rightarrow> ('e, 'a) settled \<Rightarrow> ('e, 'a) promiseAll \<Rightarrow> ('e, 'a) promiseAll" where
  "allSettle i r p =
     (if i < length (slots p) \<and> slots p ! i = None then
        (case r of
           Fulfilled x \<Rightarrow>
             let values = (slots p)[i := Some x]
             in \<lparr>slots = values,
                 settledAs = (case settledAs p of
                                Some s \<Rightarrow> Some s
                              | None \<Rightarrow> map_option Fulfilled (those values))\<rparr>
         | Rejected e \<Rightarrow>
             p\<lparr>settledAs :=
                 (case settledAs p of Some s \<Rightarrow> Some s | None \<Rightarrow> Some (Rejected e))\<rparr>)
      else p)"

section \<open>The comparison endpoint\<close>

text \<open>
  The request body as \<open>POST\<close> reads it. A field is \<open>None\<close> when it is absent or null.
  \<open>runs\<close> stands for the number that \<open>Math.floor\<close> converts the field to: the
  cast in \<open>safeJson\<close> checks nothing, and a field that does not convert to a number
  gives NaN.
\<close>

record CompareRequest =
  prompt :: "jsstring option"
  runs :: "number option"
  eigenSeed :: "number option"
  openaiMaxTokens :: "number option"
  eigenMaxTokens :: "number option"

text \<open>The constants imported from \<open>@/lib/constants\<close>, a module outside the sources at hand.\<close>

record constants =
  EIGENAI_MODEL :: jsstring
  MAX_RUNS :: nat
  MIN_RUNS :: nat
  OPENAI_MODEL :: jsstring

text \<open>
  The environment. \<open>DEFAULT_SEED\<close>, \<open>OPENAI_MAX_TOKENS\<close> and \<open>EIGENAI_MAX_TOKENS\<close>
  are the numbers that \<open>parseInt\<close> gives for the variable, or for the default that
  \<open>POST\<close> names when the variable is not set.
\<close>

record env =
  OPENAI_API_KEY :: "jsstring option"
  EIGENAI_API_KEY :: "jsstring option"
  DEFAULT_SEED :: number
  OPENAI_MAX_TOKENS :: number
  EIGENAI_MAX_TOKENS :: number
  OPENAI_API_URL :: "jsstring option"
  EIGENAI_API_URL :: "jsstring option"

definition OPENAI_DEFAULT_URL :: jsstring where
  "OPENAI_DEFAULT_URL = utf16 ''https://api.openai.com/v1/chat/completions''"

definition EIGEN_DEFAULT_URL :: jsstring where
  "EIGEN_DEFAULT_URL = utf16 ''https://eigenai.eigencloud.xyz/v1/chat/completions''"

record openAiOptions =
  endpoint :: jsstring
  apiKey :: jsstring
  model :: jsstring
  prompt :: jsstring
  runs :: number
  maxTokens :: number

record eigenOptions = openAiOptions +
  seed :: number
  seedUuid :: "jsstring option"

text \<open>
  A request sent upstream: endpoint, key, model, prompt and \<open>max_tokens\<close> for the first
  provider; endpoint, key, model, seed, \<open>max_tokens\<close> and prompt for the second.
\<close>

datatype upstreamCall =
    OpenAiFetch jsstring jsstring jsstring jsstring number
  | EigenFetch jsstring jsstring jsstring number number jsstring

text \<open>
  What a group returns: \<open>{model, runs, responses}\<close> from \<open>collectOpenAiRuns\<close>,
  \<open>{model, seed, runs, responses, seedUuid}\<close> from \<open>collectEigenRuns\<close>.
\<close>

datatype groupResult =
    OpenAiGroup jsstring number "ProviderRunResult list"
  | EigenGroup jsstring number number "ProviderRunResult list" "jsstring option"

fun groupRuns :: "groupResult \<Rightarrow> number" where
  "groupRuns (OpenAiGroup _ r _) = r"
| "groupRuns (EigenGroup _ _ r _ _) = r"

fun groupResponses :: "groupResult \<Rightarrow> ProviderRunResult list" where
  "groupResponses (OpenAiGroup _ _ rs) = rs"
| "groupResponses (EigenGroup _ _ _ rs _) = rs"

text \<open>
  The promise of a group, given the state of the \<open>Promise.all\<close> it awaits: pending as
  long as that is pending, rejected with its error, fulfilled with the object built from
  its values.
\<close>

definition collectOpenAiRuns ::
    "openAiOptions \<Rightarrow> (jsError, ProviderRunResult) promiseAll
     \<Rightarrow> (jsError, groupResult) settled option" where
  "collectOpenAiRuns options p =
     (case settledAs p of
        None \<Rightarrow> None
      | Some (Rejected e) \<Rightarrow> Some (Rejected e)
      | Some (Fulfilled responses) \<Rightarrow>
          Some (Fulfilled
                  (OpenAiGroup (model options) (openAiOptions.runs options) responses)))"

definition collectEigenRuns ::
    "eigenOptions \<Rightarrow> (jsError, ProviderRunResult) promiseAll
     \<Rightarrow> (jsError, groupResult) settled option" where
  "collectEigenRuns options p =
     (case settledAs p of
        None \<Rightarrow> None
      | Some (Rejected e) \<Rightarrow> Some (Rejected e)
      | Some (Fulfilled responses) \<Rightarrow>
          Some (Fulfilled
                  (EigenGroup (model options) (seed options) (openAiOptions.runs options)
                     responses (seedUuid options))))"

text \<open>
  The three groups are numbered 0, 1 and 2 in the order of the array that \<open>POST\<close> hands
  to the outer \<open>Promise.all\<close>; the runs of group 0 go through \<open>openAiRun\<close>, the
  others through \<open>callEigenAiRun\<close>.
\<close>

definition runOf :: "nat \<Rightarrow> reply \<Rightarrow> (jsError, ProviderRunResult) settled" where
  "runOf g r = (if g = 0 then openAiRun r else callEigenAiRun r)"

definition groupPromise ::
    "openAiOptions \<Rightarrow> eigenOptions \<Rightarrow> eigenOptions \<Rightarrow> nat
     \<Rightarrow> (jsError, ProviderRunResult) promiseAll \<Rightarrow> (jsError, groupResult) settled option" where
  "groupPromise o1 o2 o3 g p =
     (if g = 0 then collectOpenAiRuns o1 p
      else if g = 1 then collectEigenRuns o2 p
      else collectEigenRuns o3 p)"

text \<open>
  The state of one request in flight: the inner \<open>Promise.all\<close> of each group and the
  outer one over the three groups. \<open>notify\<close> passes a group on to the outer one at the
  moment the group settles.
\<close>

record postState =
  groups :: "(jsError, ProviderRunResult) promiseAll list"
  outer :: "(jsError, groupResult) promiseAll"

definition notify ::
    "nat \<Rightarrow> (jsError, groupResult) settled option \<Rightarrow> (jsError, groupResult) settled option
     \<Rightarrow> (jsError, groupResult) promiseAll \<Rightarrow> (jsError, groupResult) promiseAll" where
  "notify g was now p =
     (case was of
        Some _ \<Rightarrow> p
      | None \<Rightarrow> (case now of None \<Rightarrow> p | Some s \<Rightarrow> allSettle g s p))"

definition start :: "openAiOptions \<Rightarrow> eigenOptions \<Rightarrow> eigenOptions \<Rightarrow> nat \<Rightarrow> postState" where
  "start o1 o2 o3 n =
     \<lparr>groups = replicate 3 (allInit n),
      outer = fold (\<lambda>g. notify g None (groupPromise o1 o2 o3 g (allInit n))) [0, 1, 2]
                (allInit 3)\<rparr>"

text \<open>
  An event \<open>(g, i, r)\<close> of the timeline: run \<open>i\<close> of group \<open>g\<close> settles, its
  \<open>fetch\<close> having come to \<open>r\<close>. The timeline lists the events in the order in
  which the runs settle, so it is the completion order of the upstream calls.
\<close>

definition deliver ::
    "openAiOptions \<Rightarrow> eigenOptions \<Rightarrow> eigenOptions \<Rightarrow> nat \<times> nat \<times> reply
     \<Rightarrow> postState \<Rightarrow> postState" where
  "deliver o1 o2 o3 ev st =
     (case ev of (g, i, r) \<Rightarrow>
        if g < 3 then
          let p = groups st ! g;
              p' = allSettle i (runOf g r) p
          in \<lparr>groups = (groups st)[g := p'],
              outer = notify g (groupPromise o1 o2 o3 g p) (groupPromise o1 o2 o3 g p')
                        (outer st)\<rparr>
        else st)"

datatype response =
    ErrorResponse nat jsstring
  | Comparison jsstring groupResult groupResult groupResult

text \<open>
  What a request comes to: the response, if one is ever sent, what \<open>console.error\<close>
  logged, and the upstream requests that were sent.
\<close>

record outcome =
  response :: "response option"
  logged :: "jsError list"
  issued :: "upstreamCall list"

text \<open>The \<open>try\<close> block of \<open>POST\<close> with its \<open>catch\<close>.\<close>

definition compareAll ::
    "openAiOptions \<Rightarrow> eigenOptions \<Rightarrow> eigenOptions \<Rightarrow> (nat \<times> nat \<times> reply) list
     \<Rightarrow> outcome" where
  "compareAll o1 o2 o3 timeline =
     (let failed =
            ErrorResponse 500
              (utf16 ''Failed to compare models. Check server logs for details.'')
      in case arrayLength (openAiOptions.runs o1) of
           Inl e \<Rightarrow> \<lparr>response = Some failed, logged = [e], issued = []\<rparr>
         | Inr n \<Rightarrow>
             let calls =
                   replicate n (OpenAiFetch (endpoint o1) (apiKey o1) (model o1)
                                  (openAiOptions.prompt o1) (maxTokens o1))
                   @ replicate n (EigenFetch (endpoint o2) (apiKey o2) (model o2) (seed o2)
                                    (maxTokens o2) (openAiOptions.prompt o2))
                   @ replicate n (EigenFetch (endpoint o3) (apiKey o3) (model o3) (seed o3)
                                    (maxTokens o3) (openAiOptions.prompt o3));
                 final = fold (deliver o1 o2 o3) timeline (start o1 o2 o3 n)
             in case settledAs (outer final) of
                  None \<Rightarrow> \<lparr>response = None, logged = [], issued = calls\<rparr>
                | Some (Rejected e) \<Rightarrow>
                    \<lparr>response = Some failed, logged = [e], issued = calls\<rparr>
                | Some (Fulfilled results) \<Rightarrow>
                    (case results of
                       [openaiResults, eigenResult, eigenRandomResult] \<Rightarrow>
                         \<lparr>response =
                            Some (Comparison (openAiOptions.prompt o1) openaiResults
                                    eigenResult eigenRandomResult),
                          logged = [], issued = calls\<rparr>
                     | _ \<Rightarrow> \<lparr>response = None, logged = [], issued = calls\<rparr>))"

text \<open>\<open>process.env.X?.trim() || dflt\<close>\<close>

definition orDefault :: "jsstring option \<Rightarrow> jsstring \<Rightarrow> jsstring" where
  "orDefault url dflt =
     (case url of None \<Rightarrow> dflt | Some u \<Rightarrow> if trim u = [] then dflt else trim u)"

text \<open>
  \<open>POST\<close>, given the constants, the environment, the body as \<open>safeJson\<close> returns it
  (\<open>None\<close> for an empty or malformed body), the UUID that \<open>randomUUID\<close> draws, and the
  timeline of the upstream calls.
\<close>

definition POST ::
    "constants \<Rightarrow> env \<Rightarrow> CompareRequest option \<Rightarrow> jsstring \<Rightarrow> (nat \<times> nat \<times> reply) list
     \<Rightarrow> outcome" where
  "POST k e parsed randomSeedUuid timeline =
     (let body = (case parsed of
                    None \<Rightarrow> \<lparr>CompareRequest.prompt = None, runs = None, eigenSeed = None,
                              openaiMaxTokens = None, eigenMaxTokens = None\<rparr>
                  | Some b \<Rightarrow> b);
          prompt = map_option trim (CompareRequest.prompt body)
      in if prompt = None \<or> prompt = Some [] then
           \<lparr>response = Some (ErrorResponse 400 (utf16 ''Prompt is required.'')),
            logged = [], issued = []\<rparr>
         else if OPENAI_API_KEY e = None \<or> OPENAI_API_KEY e = Some [] then
           \<lparr>response =
              Some (ErrorResponse 500 (utf16 ''Missing OPENAI_API_KEY environment variable.'')),
            logged = [], issued = []\<rparr>
         else if EIGENAI_API_KEY e = None \<or> EIGENAI_API_KEY e = Some [] then
           \<lparr>response =
              Some (ErrorResponse 500 (utf16 ''Missing EIGENAI_API_KEY environment variable.'')),
            logged = [], issued = []\<rparr>
         else
           let prompt = (case prompt of None \<Rightarrow> [] | Some p \<Rightarrow> p);
               openaiKey = (case OPENAI_API_KEY e of None \<Rightarrow> [] | Some key \<Rightarrow> key);
               eigenKey = (case EIGENAI_API_KEY e of None \<Rightarrow> [] | Some key \<Rightarrow> key);
               runs = effectiveRuns (MIN_RUNS k) (MAX_RUNS k) (CompareRequest.runs body);
               eigenSeed = (case eigenSeed body of
                              Some (Fin x) \<Rightarrow> Math_floor (Fin x)
                            | _ \<Rightarrow> DEFAULT_SEED e);
               openaiMaxTokens =
                 (case openaiMaxTokens body of None \<Rightarrow> OPENAI_MAX_TOKENS e | Some t \<Rightarrow> t);
               eigenMaxTokens =
                 (case eigenMaxTokens body of None \<Rightarrow> EIGENAI_MAX_TOKENS e | Some t \<Rightarrow> t);
               randomSeed = Fin (of_int (uuidToSeed randomSeedUuid));
               openaiEndpoint = orDefault (OPENAI_API_URL e) OPENAI_DEFAULT_URL;
               eigenEndpoint = orDefault (EIGENAI_API_URL e) EIGEN_DEFAULT_URL
           in compareAll
                \<lparr>endpoint = openaiEndpoint, apiKey = openaiKey, model = OPENAI_MODEL k,
                 prompt = prompt, runs = runs, maxTokens = openaiMaxTokens\<rparr>
                \<lparr>endpoint = eigenEndpoint, apiKey = eigenKey, model = EIGENAI_MODEL k,
                 prompt = prompt, runs = runs, maxTokens = eigenMaxTokens,
                 seed = eigenSeed, seedUuid = None\<rparr>
                \<lparr>endpoint = eigenEndpoint, apiKey = eigenKey, model = EIGENAI_MODEL k,
                 prompt = prompt, runs = runs, maxTokens = eigenMaxTokens,
                 seed = randomSeed, seedUuid = Some randomSeedUuid\<rparr>
                timeline)"

section \<open>Requests and timelines\<close>

text \<open>The prompt is absent, empty, or white space only.\<close>

definition promptMissing :: "CompareRequest option \<Rightarrow> bool" where
  "promptMissing parsed =
     (case parsed of
        None \<Rightarrow> True
      | Some b \<Rightarrow> (case CompareRequest.prompt b of None \<Rightarrow> True | Some p \<Rightarrow> list_all isWhiteSpace p))"

text \<open>A credential is missing: the variable is not set, or set to the empty string.\<close>

definition missing :: "jsstring option \<Rightarrow> bool" where
  "missing key \<longleftrightarrow> key = None \<or> key = Some []"

definition requestedRuns :: "CompareRequest option \<Rightarrow> number option" where
  "requestedRuns parsed = (case parsed of None \<Rightarrow> None | Some b \<Rightarrow> CompareRequest.runs b)"

text \<open>
  An upstream call fails: a status that is not 2xx, a transport failure, or a timeout (the
  last two reject the \<open>fetch\<close>).
\<close>

definition upstreamFails :: "reply \<Rightarrow> bool" where
  "upstreamFails r = (case r of FetchRejects _ \<Rightarrow> True | Responds status _ _ \<Rightarrow> \<not> ok status)"

text \<open>
  In a well-formed timeline for \<open>n\<close> runs in each group, every event belongs to a call
  that was issued, and no call completes twice.
\<close>

definition callOf :: "nat \<times> nat \<times> reply \<Rightarrow> nat \<times> nat" where
  "callOf ev = (fst ev, fst (snd ev))"

definition wellFormed :: "nat \<Rightarrow> (nat \<times> nat \<times> reply) list \<Rightarrow> bool" where
  "wellFormed n timeline \<longleftrightarrow>
     distinct (map callOf timeline)
     \<and> list_all (\<lambda>ev. fst (callOf ev) < 3 \<and> snd (callOf ev) < n) timeline"

text \<open>The error of the first run of the timeline that rejects.\<close>

fun firstRejection :: "(nat \<times> nat \<times> reply) list \<Rightarrow> jsError option" where
  "firstRejection [] = None"
| "firstRejection ((g, i, r) # rest) =
     (case runOf g r of Rejected e \<Rightarrow> Some e | Fulfilled _ \<Rightarrow> firstRejection rest)"

section \<open>The state of a request, from the results delivered so far\<close>

text \<open>
  The definitions of this section serve the proofs. \<open>m\<close> maps a call \<open>(g, i)\<close> to
  the result of run \<open>i\<close> of group \<open>g\<close>, once that run has fulfilled. \<open>wrap\<close> is
  the object a group returns, \<open>row\<close> the slots of a group, \<open>grp\<close> its
  \<open>Promise.all\<close>, \<open>col\<close> a slot of the outer \<open>Promise.all\<close>, \<open>out\<close> the
  outer \<open>Promise.all\<close>, and \<open>stateOf\<close> the whole state, as long as no run has
  rejected.
\<close>

definition wrap :: "openAiOptions \<Rightarrow> eigenOptions \<Rightarrow> eigenOptions \<Rightarrow> nat
    \<Rightarrow> ProviderRunResult list \<Rightarrow> groupResult" where
  "wrap o1 o2 o3 g responses =
     (if g = 0 then OpenAiGroup (model o1) (openAiOptions.runs o1) responses
      else if g = 1 then
        EigenGroup (model o2) (seed o2) (openAiOptions.runs o2) responses (seedUuid o2)
      else EigenGroup (model o3) (seed o3) (openAiOptions.runs o3) responses (seedUuid o3))"

definition row :: "nat \<Rightarrow> (nat \<times> nat \<Rightarrow> ProviderRunResult option) \<Rightarrow> nat
    \<Rightarrow> ProviderRunResult option list" where
  "row n m g = map (\<lambda>i. m (g, i)) [0..<n]"

definition grp :: "nat \<Rightarrow> (nat \<times> nat \<Rightarrow> ProviderRunResult option) \<Rightarrow> nat
    \<Rightarrow> (jsError, ProviderRunResult) promiseAll" where
  "grp n m g = \<lparr>slots = row n m g, settledAs = map_option Fulfilled (those (row n m g))\<rparr>"

definition col :: "openAiOptions \<Rightarrow> eigenOptions \<Rightarrow> eigenOptions \<Rightarrow> nat
    \<Rightarrow> (nat \<times> nat \<Rightarrow> ProviderRunResult option) \<Rightarrow> nat \<Rightarrow> groupResult option" where
  "col o1 o2 o3 n m g = map_option (wrap o1 o2 o3 g) (those (row n m g))"

definition out :: "openAiOptions \<Rightarrow> eigenOptions \<Rightarrow> eigenOptions \<Rightarrow> nat
    \<Rightarrow> (nat \<times> nat \<Rightarrow> ProviderRunResult option) \<Rightarrow> (jsError, groupResult) promiseAll" where
  "out o1 o2 o3 n m =
     \<lparr>slots = map (col o1 o2 o3 n m) [0..<3],
      settledAs = map_option Fulfilled (those (map (col o1 o2 o3 n m) [0..<3]))\<rparr>"

definition stateOf :: "openAiOptions \<Rightarrow> eigenOptions \<Rightarrow> eigenOptions \<Rightarrow> nat
    \<Rightarrow> (nat \<times> nat \<Rightarrow> ProviderRunResult option) \<Rightarrow> postState" where
  "stateOf o1 o2 o3 n m = \<lparr>groups = map (grp n m) [0..<3], outer = out o1 o2 o3 n m\<rparr>"

text \<open>
  What holds of the state whatever arrives: every group has \<open>n\<close> slots and fulfils
  with \<open>n\<close> values, the outer promise has three slots, each filled by the object of
  its group, and it fulfils with what its slots hold.
\<close>

definition shaped :: "openAiOptions \<Rightarrow> eigenOptions \<Rightarrow> eigenOptions \<Rightarrow> nat \<Rightarrow> postState \<Rightarrow> bool" where
  "shaped o1 o2 o3 n st \<longleftrightarrow>
     length (groups st) = 3
     \<and> (\<forall>g < 3. length (slots (groups st ! g)) = n
                \<and> (\<forall>xs. settledAs (groups st ! g) = Some (Fulfilled xs) \<longrightarrow> length xs = n))
     \<and> length (slots (outer st)) = 3
     \<and> (\<forall>g < 3. \<forall>G. slots (outer st) ! g = Some G
                \<longrightarrow> (\<exists>xs. length xs = n \<and> G = wrap o1 o2 o3 g xs))
     \<and> (\<forall>Gs. settledAs (outer st) = Some (Fulfilled Gs) \<longrightarrow> slots (outer st) = map Some Gs)"

section \<open>An example configuration\<close>

definition exampleConstants :: constants where
  "exampleConstants =
     \<lparr>EIGENAI_MODEL = utf16 ''eigen-model'', MAX_RUNS = 8, MIN_RUNS = 1,
      OPENAI_MODEL = utf16 ''openai-model''\<rparr>"

definition exampleEnv :: env where
  "exampleEnv =
     \<lparr>OPENAI_API_KEY = Some (utf16 ''sk-1''), EIGENAI_API_KEY = Some (utf16 ''sk-2''),
      DEFAULT_SEED = Fin 42, OPENAI_MAX_TOKENS = Fin 256, EIGENAI_MAX_TOKENS = Fin 256,
      OPENAI_API_URL = None, EIGENAI_API_URL = None\<rparr>"

definition exampleRequest :: "string \<Rightarrow> number option \<Rightarrow> CompareRequest" where
  "exampleRequest p r =
     \<lparr>CompareRequest.prompt = Some (utf16 p), runs = r, eigenSeed = None,
      openaiMaxTokens = None, eigenMaxTokens = None\<rparr>"

definition exampleUuid :: jsstring where
  "exampleUuid = utf16 ''f47ac10b-58cc-4372-a567-0e02b2c3d479''"

definition exampleReply :: "nat \<Rightarrow> nat \<Rightarrow> reply" where
  "exampleReply g i =
     Responds 200 []
       (Some \<lparr>id' = Some [0x30 + of_nat g, 0x30 + of_nat i], choices = None, usage = None\<rparr>)"

definition exampleResult :: "nat \<Rightarrow> nat \<Rightarrow> ProviderRunResult" where
  "exampleResult g i =
     \<lparr>responseId = Some [0x30 + of_nat g, 0x30 + of_nat i], message = [],
      finishReason = None, usage = None\<rparr>"

section \<open>Properties of the text cleanup\<close>

text \<open>
  C3. The four literal expectations of the cleanup: the input with a start tag, text, the
  end marker and a word yields the word; two lines of which the first is quoted yield the
  two lines without the quote marker; every input that is empty after trimming yields the
  empty string; the end marker alone yields the empty string.
\<close>

theorem parseEigenMessage_literals:
  "parseEigenMessage (utf16 ''  <|start|>Hello<|end|> World  '') = utf16 ''World''
   \<and> parseEigenMessage (utf16 ''> quoted line\<newline>plain line'')
       = utf16 ''quoted line\<newline>plain line''
   \<and> (\<forall>raw. trim raw = [] \<longrightarrow> parseEigenMessage raw = [])
   \<and> parseEigenMessage (utf16 ''<|end|>'') = utf16 ''''"
proof -
  have 1: "parseEigenMessage (utf16 ''  <|start|>Hello<|end|> World  '') = utf16 ''World''"
    by code_simp
  have 2: "parseEigenMessage (utf16 ''> quoted line\<newline>plain line'')
             = utf16 ''quoted line\<newline>plain line''"
    by code_simp
  have 3: "\<forall>raw. trim raw = [] \<longrightarrow> parseEigenMessage raw = []"
    by (simp add: parseEigenMessage_def)
  have 4: "parseEigenMessage (utf16 ''<|end|>'') = utf16 ''''"
    by code_simp
  from 1 2 3 4 show ?thesis by blast
qed

theorem parseEigenMessage_literals_witness:
  "trim (utf16 ''   '') = [] \<and> parseEigenMessage (utf16 ''   '') = []"
proof -
  have e: "trim (utf16 ''   '') = []"
    by (simp add: trim_def utf16_def isWhiteSpace_def)
  from parseEigenMessage_literals have "trim (utf16 ''   '') = [] \<longrightarrow> parseEigenMessage (utf16 ''   '') = []"
    by blast
  with e show ?thesis by simp
qed

subsection \<open>Already-clean text\<close>

lemma join_split: "join sep (split sep s) = s"
proof (induction s)
  case Nil
  show ?case by simp
next
  case (Cons c cs)
  show ?case
  proof (cases "split sep cs")
    case Nil
    with Cons show ?thesis by (cases cs) (auto split: if_splits list.splits)
  next
    case (Cons l ls)
    with Cons.IH show ?thesis by (cases ls) auto
  qed
qed

lemma matchTag_END_TAG: "prefix END_TAG z \<Longrightarrow> matchTag z \<noteq> None"
  by (auto simp: prefix_def END_TAG_def utf16_def)

lemma lastIndexOf_none:
  assumes "\<forall>k \<le> length s. \<not> prefix pat (drop k s)"
  shows "lastIndexOf s pat = - 1"
proof -
  have "filter (\<lambda>k. prefix pat (drop k s)) (rev [0..<Suc (length s)]) = []"
    using assms by (auto simp: filter_empty_conv)
  then show ?thesis by (simp add: lastIndexOf_def)
qed

lemma removeTags_no_match:
  "\<forall>k \<le> length s. matchTag (drop k s) = None \<Longrightarrow> removeTags s = s"
proof (induction s)
  case Nil
  show ?case by simp
next
  case (Cons c cs)
  have 0: "matchTag (c # cs) = None" using Cons.prems[rule_format, of 0] by simp
  have "\<forall>k \<le> length cs. matchTag (drop k cs) = None"
  proof (intro allI impI)
    fix k assume "k \<le> length cs"
    then show "matchTag (drop k cs) = None" using Cons.prems[rule_format, of "Suc k"] by simp
  qed
  with Cons.IH 0 show ?case by simp
qed

lemma stripBlockquote_id: "noBlockquote line \<Longrightarrow> stripBlockquote line = line"
  by (cases "dropWhile isWhiteSpace line")
    (simp_all add: noBlockquote_def stripBlockquote_def del: dropWhile_eq_Nil_conv)

lemma clean_noop:
  assumes "isClean s" shows "parseEigenMessage s = s"
proof -
  from assms have t: "trim s = s"
    and m: "\<forall>k \<le> length s. matchTag (drop k s) = None"
    and b: "\<forall>l \<in> set (split 0x0A s). noBlockquote l"
    by (auto simp: isClean_def list_all_iff)
  have "\<forall>k \<le> length s. \<not> prefix END_TAG (drop k s)"
    using m matchTag_END_TAG by blast
  then have w: "withoutPreceding s = s"
    by (simp add: withoutPreceding_def lastIndexOf_none)
  have r: "removeTags s = s" using m by (rule removeTags_no_match)
  have "map stripBlockquote (split 0x0A s) = split 0x0A s"
    using b by (simp add: map_idI stripBlockquote_id)
  then show ?thesis
    using t w r by (simp add: parseEigenMessage_def join_split)
qed

text \<open>
  C1, as amended. The cleanup is idempotent on already-clean text: a string with no white
  space at either end, no \<open><|...|>\<close> token and no line that starts with a blockquote
  marker is returned as it is, so a second application changes nothing; and whenever the
  result of one application is such a string, two applications give what one gives.
\<close>

theorem parseEigenMessage_idempotent_on_clean:
  "(isClean s \<longrightarrow> parseEigenMessage s = s \<and> parseEigenMessage (parseEigenMessage s) = parseEigenMessage s)
   \<and> (isClean (parseEigenMessage raw)
        \<longrightarrow> parseEigenMessage (parseEigenMessage raw) = parseEigenMessage raw)"
  using clean_noop by simp

theorem parseEigenMessage_idempotent_on_clean_witness:
  "isClean (utf16 ''Hello <b> world\<newline>a > b'')
   \<and> parseEigenMessage (utf16 ''Hello <b> world\<newline>a > b'') = utf16 ''Hello <b> world\<newline>a > b''
   \<and> isClean (parseEigenMessage (utf16 ''  <|start|>Hello<|end|> World  ''))
   \<and> parseEigenMessage (parseEigenMessage (utf16 ''  <|start|>Hello<|end|> World  ''))
       = parseEigenMessage (utf16 ''  <|start|>Hello<|end|> World  '')"
proof -
  have 1: "isClean (utf16 ''Hello <b> world\<newline>a > b'')"
    by code_simp
  have 2: "isClean (parseEigenMessage (utf16 ''  <|start|>Hello<|end|> World  ''))"
    by code_simp
  from 1 parseEigenMessage_idempotent_on_clean[of "utf16 ''Hello <b> world\<newline>a > b''"]
  have 3: "parseEigenMessage (utf16 ''Hello <b> world\<newline>a > b'') = utf16 ''Hello <b> world\<newline>a > b''"
    by blast
  from 2 parseEigenMessage_idempotent_on_clean[of _ "utf16 ''  <|start|>Hello<|end|> World  ''"]
  have 4: "parseEigenMessage (parseEigenMessage (utf16 ''  <|start|>Hello<|end|> World  ''))
       = parseEigenMessage (utf16 ''  <|start|>Hello<|end|> World  '')"
    by blast
  from 1 2 3 4 show ?thesis by blast
qed

text \<open>
  C1 as it is stated fails: a line that starts with two blockquote markers loses one of
  them in each application.
\<close>

theorem parseEigenMessage_not_idempotent:
  "parseEigenMessage (parseEigenMessage (utf16 ''>> a'')) \<noteq> parseEigenMessage (utf16 ''>> a'')"
  by code_simp

subsection \<open>The end marker\<close>

lemma lastIndexOf_found:
  assumes "lastIndexOf s pat = int k"
  shows "prefix pat (drop k s)"
proof -
  let ?ks = "filter (\<lambda>k. prefix pat (drop k s)) (rev [0..<Suc (length s)])"
  from assms obtain ks where ks: "?ks = k # ks"
    by (cases ?ks) (simp_all add: lastIndexOf_def)
  then have "k \<in> set ?ks" by simp
  then show ?thesis by (simp only: set_filter mem_Collect_eq)
qed

text \<open>
  Where the marker occurs, \<open>withoutPreceding\<close> is the last code unit of the marker
  followed by the text after the last occurrence; where it does not occur, the text is
  kept whole.
\<close>

lemma withoutPreceding_marker:
  assumes "lastIndexOf trimmed END_TAG = int k"
  shows "withoutPreceding trimmed = 0x3E # drop (k + 7) trimmed"
proof -
  from lastIndexOf_found[OF assms] obtain rest where r: "drop k trimmed = END_TAG @ rest"
    by (auto simp: prefix_def)
  then have "length (drop k trimmed) = 7 + length rest"
    by (simp add: END_TAG_def utf16_def)
  then have len: "k + 7 \<le> length trimmed" by simp
  have "drop (k + 6) trimmed = drop 6 (drop k trimmed)" by (simp add: add.commute)
  also have "\<dots> = 0x3E # rest" by (simp add: r END_TAG_def utf16_def)
  finally have 6: "drop (k + 6) trimmed = 0x3E # rest" .
  have "drop (k + 7) trimmed = drop 7 (drop k trimmed)" by (simp add: add.commute)
  also have "\<dots> = rest" by (simp add: r END_TAG_def utf16_def)
  finally have 7: "drop (k + 7) trimmed = rest" .
  have "slice_from trimmed (int k + 6) = drop (k + 6) trimmed"
    using len by (simp add: slice_from_def slice_def Let_def nat_add_distrib min_def)
  with assms 6 7 show ?thesis by (simp add: withoutPreceding_def)
qed

lemma withoutPreceding_no_marker:
  "lastIndexOf trimmed END_TAG = - 1 \<Longrightarrow> withoutPreceding trimmed = trimmed"
  by (simp add: withoutPreceding_def)

text \<open>
  C2. The cleanup cuts six code units after the start of the last end marker, and the
  marker has seven: the last code unit of the marker stays in front of the text that
  follows it. On the input below the text kept is not the text after the marker, and the
  result of the cleanup keeps a blockquote marker that the text after the marker would
  have lost.
\<close>

theorem withoutPreceding_keeps_marker_end:
  "trim (utf16 ''x<|end|>> hi'') = utf16 ''x<|end|>> hi''
   \<and> lastIndexOf (utf16 ''x<|end|>> hi'') END_TAG = 1
   \<and> withoutPreceding (utf16 ''x<|end|>> hi'') = utf16 ''>> hi''
   \<and> parseEigenMessage (utf16 ''x<|end|>> hi'') = utf16 ''> hi''
   \<and> parseEigenMessage (utf16 ''> hi'') = utf16 ''hi''"
  by code_simp

section \<open>Properties of the seed\<close>

lemma mask31_const: "(0x7fffffff :: 32 word) = mask 31"
  by (simp add: mask_eq_exp_minus_1)

lemma mask31: "sint ((word_of_int v :: 32 word) AND 0x7fffffff) = v mod 2 ^ 31"
proof -
  have "(word_of_int v :: 32 word) AND 0x7fffffff = take_bit 31 (word_of_int v)"
    by (simp only: mask31_const take_bit_eq_mask)
  also have "sint \<dots> = take_bit 31 v"
    by transfer (simp add: signed_take_bit_eq_take_bit_shift take_bit_eq_mod)
  finally show ?thesis by (simp add: take_bit_eq_mod)
qed

lemma hexDigit_range: "hexDigit c = Some d \<Longrightarrow> 0 \<le> d \<and> d < 16"
  by (auto simp: hexDigit_def word_le_def split: if_splits)

lemma hexValue_snoc:
  "hexValue (z @ [c]) = 16 * hexValue z + (case hexDigit c of None \<Rightarrow> 0 | Some d \<Rightarrow> d)"
  by (simp add: hexValue_def)

lemma hexValue_bound: "0 \<le> hexValue z \<and> hexValue z < 16 ^ length z"
proof (induction z rule: rev_induct)
  case Nil
  show ?case by (simp add: hexValue_def)
next
  case (snoc c z)
  have "0 \<le> (case hexDigit c of None \<Rightarrow> 0 | Some d \<Rightarrow> d) \<and> (case hexDigit c of None \<Rightarrow> 0 | Some d \<Rightarrow> d) < 16"
    using hexDigit_range[of c] by (cases "hexDigit c") auto
  with snoc show ?case by (simp add: hexValue_snoc)
qed

lemma hexDigit_not_special:
  assumes "hexDigit c \<noteq> None"
  shows "\<not> isWhiteSpace c" "c \<noteq> 0x2B" "c \<noteq> 0x2D"
proof -
  from assms have r: "48 \<le> uint c \<and> uint c \<le> 102"
    by (auto simp: hexDigit_def word_le_def split: if_splits)
  then show "\<not> isWhiteSpace c"
    by (auto simp: isWhiteSpace_def word_le_def)
  from assms show "c \<noteq> 0x2B" "c \<noteq> 0x2D"
    by (auto simp: hexDigit_def)
qed

lemma slice_0_8: "slice s 0 8 = take 8 s"
  by (simp add: slice_def Let_def min_def)

lemma parseInt16_hex:
  assumes "z \<noteq> []" and "\<forall>c \<in> set z. hexDigit c \<noteq> None"
  shows "parseInt16 z = Some (hexValue z)"
proof -
  from assms obtain c cs where z: "z = c # cs" by (cases z) auto
  with assms have c: "hexDigit c \<noteq> None" by simp
  have d: "dropWhile isWhiteSpace z = z"
    using z hexDigit_not_special(1)[OF c] by simp
  have x: "hexDigit 0x78 = None" "hexDigit 0x58 = None"
    by (simp_all add: hexDigit_def)
  have p: "\<not> prefix (utf16 ''0x'') z" "\<not> prefix (utf16 ''0X'') z"
    using assms(2) z x by (auto simp: utf16_def prefix_def)
  have t: "takeWhile (\<lambda>c. hexDigit c \<noteq> None) z = z"
    using assms(2) by (simp add: takeWhile_eq_all_conv)
  show ?thesis
    unfolding parseInt16_def Let_def d
    using hexDigit_not_special(2,3)[OF c] p t assms(1) by (simp add: z del: takeWhile_eq_all_conv)
qed

lemma take_filter_all:
  "\<forall>x \<in> set (take n xs). P x \<Longrightarrow> take n (filter P xs) = take n xs"
proof (induction xs arbitrary: n)
  case Nil
  show ?case by simp
next
  case (Cons x xs)
  then show ?case by (cases n) auto
qed

lemma uuid_first8:
  assumes "isUuidV4 u"
  shows "length (take 8 u) = 8" and "\<forall>c \<in> set (take 8 u). hexDigit c \<noteq> None"
proof -
  from assms have len: "length u = 36"
    and all: "\<forall>i < 36. if i \<in> {8, 13, 18, 23} then u ! i = 0x2D else hexDigit (u ! i) \<noteq> None"
    by (auto simp: isUuidV4_def list_all_iff)
  from len show "length (take 8 u) = 8" by simp
  show "\<forall>c \<in> set (take 8 u). hexDigit c \<noteq> None"
  proof
    fix c assume "c \<in> set (take 8 u)"
    then obtain i where i: "i < 8" "c = u ! i"
      using len by (auto simp: in_set_conv_nth)
    with all[rule_format, of i] show "hexDigit c \<noteq> None" by auto
  qed
qed

text \<open>
  C4. For a version-4 UUID the first eight code units, hyphens removed, are its first eight
  hexadecimal digits; parsing them gives their value as an unsigned 32-bit integer, and the
  seed is that value with all but the low 31 bits cleared. For every string the seed lies
  between \<open>0\<close> and \<open>2^31 - 1\<close>, and it is \<open>0\<close> when the parse fails.
  \<open>uuidToSeed\<close> reads nothing but its argument, so equal arguments give equal seeds.
\<close>

theorem uuidToSeed_v4:
  "(isUuidV4 uuid \<longrightarrow>
      slice (filter (\<lambda>c. c \<noteq> 0x2D) uuid) 0 8 = take 8 uuid
      \<and> parseInt16 (take 8 uuid) = Some (hexValue (take 8 uuid))
      \<and> 0 \<le> hexValue (take 8 uuid) \<and> hexValue (take 8 uuid) < 2 ^ 32
      \<and> uuidToSeed uuid = hexValue (take 8 uuid) mod 2 ^ 31)
   \<and> 0 \<le> uuidToSeed uuid \<and> uuidToSeed uuid \<le> 2 ^ 31 - 1
   \<and> (parseInt16 (slice (filter (\<lambda>c. c \<noteq> 0x2D) uuid) 0 8) = None \<longrightarrow> uuidToSeed uuid = 0)"
proof -
  have range: "0 \<le> uuidToSeed uuid \<and> uuidToSeed uuid \<le> 2 ^ 31 - 1"
    by (simp add: uuidToSeed_def Let_def mask31)
  have fail: "parseInt16 (slice (filter (\<lambda>c. c \<noteq> 0x2D) uuid) 0 8) = None \<longrightarrow> uuidToSeed uuid = 0"
    by (simp add: uuidToSeed_def)
  have v4: "slice (filter (\<lambda>c. c \<noteq> 0x2D) uuid) 0 8 = take 8 uuid
      \<and> parseInt16 (take 8 uuid) = Some (hexValue (take 8 uuid))
      \<and> 0 \<le> hexValue (take 8 uuid) \<and> hexValue (take 8 uuid) < 2 ^ 32
      \<and> uuidToSeed uuid = hexValue (take 8 uuid) mod 2 ^ 31" if u: "isUuidV4 uuid"
  proof -
    note f8 = uuid_first8[OF u]
    have "\<forall>c \<in> set (take 8 uuid). c \<noteq> 0x2D"
      using f8(2) hexDigit_not_special(3) by blast
    then have s: "slice (filter (\<lambda>c. c \<noteq> 0x2D) uuid) 0 8 = take 8 uuid"
      by (simp add: slice_0_8 take_filter_all)
    have ne: "take 8 uuid \<noteq> []" using f8(1) by auto
    have p: "parseInt16 (take 8 uuid) = Some (hexValue (take 8 uuid))"
      using ne f8(2) by (rule parseInt16_hex)
    have b: "0 \<le> hexValue (take 8 uuid) \<and> hexValue (take 8 uuid) < 2 ^ 32"
      using hexValue_bound[of "take 8 uuid"] f8(1) by simp
    have "uuidToSeed uuid = hexValue (take 8 uuid) mod 2 ^ 31"
      unfolding uuidToSeed_def Let_def s p by (simp add: mask31)
    with s p b show ?thesis by simp
  qed
  from range fail v4 show ?thesis by blast
qed

theorem uuidToSeed_v4_witness:
  "isUuidV4 (utf16 ''f47ac10b-58cc-4372-a567-0e02b2c3d479'')
   \<and> uuidToSeed (utf16 ''f47ac10b-58cc-4372-a567-0e02b2c3d479'') = 0xf47ac10b mod 2 ^ 31
   \<and> parseInt16 (slice (filter (\<lambda>c. c \<noteq> 0x2D) (utf16 ''zz'')) 0 8) = None
   \<and> uuidToSeed (utf16 ''zz'') = 0"
proof -
  have u: "isUuidV4 (utf16 ''f47ac10b-58cc-4372-a567-0e02b2c3d479'')" by code_simp
  have h: "hexValue (take 8 (utf16 ''f47ac10b-58cc-4372-a567-0e02b2c3d479'')) = 0xf47ac10b"
    by code_simp
  have z: "parseInt16 (slice (filter (\<lambda>c. c \<noteq> 0x2D) (utf16 ''zz'')) 0 8) = None" by code_simp
  from uuidToSeed_v4[of "utf16 ''f47ac10b-58cc-4372-a567-0e02b2c3d479''"] u h
  have 1: "uuidToSeed (utf16 ''f47ac10b-58cc-4372-a567-0e02b2c3d479'') = 0xf47ac10b mod 2 ^ 31"
    by simp
  from uuidToSeed_v4[of "utf16 ''zz''"] z have 2: "uuidToSeed (utf16 ''zz'') = 0" by blast
  from u 1 z 2 show ?thesis by blast
qed

section \<open>Properties of the run count\<close>

lemma floor_below: "x < real n \<Longrightarrow> \<lfloor>x\<rfloor> < int n"
  by (simp add: floor_less_iff)

lemma floor_above: "real n < x \<Longrightarrow> int n \<le> \<lfloor>x\<rfloor>"
  by (simp add: le_floor_iff)

text \<open>
  Where \<open>runs\<close> is absent or finite: with \<open>MIN_RUNS \<le> MAX_RUNS\<close>, an absent
  \<open>runs\<close> gives 4 clamped into the range, which is 4 when 4 lies in the range, and a
  finite \<open>runs\<close> gives its floor clamped into the closed range, so a value below the
  range gives \<open>MIN_RUNS\<close> and a value above it \<open>MAX_RUNS\<close>.
\<close>

lemma effectiveRuns_finite:
  assumes "lo \<le> hi"
  shows "effectiveRuns lo hi None = Fin (real (min (max 4 lo) hi))
    \<and> (lo \<le> 4 \<and> 4 \<le> hi \<longrightarrow> effectiveRuns lo hi None = Fin 4)
    \<and> effectiveRuns lo hi (Some (Fin x))
           = Fin (of_int (min (max \<lfloor>x\<rfloor> (int lo)) (int hi)))
    \<and> int lo \<le> min (max \<lfloor>x\<rfloor> (int lo)) (int hi)
    \<and> min (max \<lfloor>x\<rfloor> (int lo)) (int hi) \<le> int hi
    \<and> (x < real lo \<longrightarrow> effectiveRuns lo hi (Some (Fin x)) = Fin (real lo))
    \<and> (real hi < x \<longrightarrow> effectiveRuns lo hi (Some (Fin x)) = Fin (real hi))"
proof -
  have absent: "effectiveRuns lo hi None = Fin (real (min (max 4 lo) hi))"
    by (simp add: effectiveRuns_def clamp_def min_def max_def)
  have four: "lo \<le> 4 \<and> 4 \<le> hi \<longrightarrow> effectiveRuns lo hi None = Fin 4"
    by (simp add: absent min_def max_def)
  have fin: "effectiveRuns lo hi (Some (Fin x))
           = Fin (of_int (min (max \<lfloor>x\<rfloor> (int lo)) (int hi)))"
    by (simp add: effectiveRuns_def clamp_def min_def max_def)
  have range: "int lo \<le> min (max \<lfloor>x\<rfloor> (int lo)) (int hi)"
    "min (max \<lfloor>x\<rfloor> (int lo)) (int hi) \<le> int hi"
    using assms by simp_all
  have below: "x < real lo \<longrightarrow> effectiveRuns lo hi (Some (Fin x)) = Fin (real lo)"
    using assms floor_below[of x lo] by (auto simp: fin min_def max_def)
  have above: "real hi < x \<longrightarrow> effectiveRuns lo hi (Some (Fin x)) = Fin (real hi)"
    using assms floor_above[of hi x] by (auto simp: fin min_def max_def)
  from absent four fin range below above show ?thesis by blast
qed

text \<open>
  C5. The run count is 4 when \<open>runs\<close> is absent, with the bounds 1 and 8, but not when
  \<open>runs\<close> is not finite: \<open>body.runs ?? 4\<close> replaces an absent value only, and
  nothing checks that \<open>runs\<close> is finite, as \<open>Number.isFinite\<close> checks
  \<open>eigenSeed\<close> on the next lines of \<open>POST\<close>. Plus infinity goes through the clamp
  and gives 8, minus infinity gives 1, and NaN stays NaN.
\<close>

theorem effectiveRuns_not_finite:
  "effectiveRuns 1 8 None = Fin 4
   \<and> effectiveRuns 1 8 (Some PosInf) = Fin 8
   \<and> effectiveRuns 1 8 (Some NegInf) = Fin 1
   \<and> effectiveRuns 1 8 (Some NaN) = NaN"
  by (simp add: effectiveRuns_def clamp_def)

section \<open>Properties of the comparison endpoint\<close>

subsection \<open>Promise.all and the state of a request\<close>

lemma those_None_iff: "those xs = None \<longleftrightarrow> None \<in> set xs"
  by (induction xs) (auto split: option.splits)

lemma those_Some_iff: "those xs = Some ys \<longleftrightarrow> xs = map Some ys"
  by (induction xs arbitrary: ys) (auto split: option.splits)

lemma those_replicate_None: "those (replicate n None) = (if n = 0 then Some [] else None)"
  by (cases n) simp_all

lemma map_upt_update:
  "g < k \<Longrightarrow> f' g = v \<Longrightarrow> (\<And>h. h \<noteq> g \<Longrightarrow> f' h = f h) \<Longrightarrow> (map f [0..<k])[g := v] = map f' [0..<k]"
  by (auto simp: list_eq_iff_nth_eq nth_list_update)

lemma row_update: "i < n \<Longrightarrow> (row n m g)[i := Some x] = row n (m((g, i) \<mapsto> x)) g"
  unfolding row_def by (rule map_upt_update) auto

lemma row_other: "h \<noteq> g \<Longrightarrow> row n (m((g, i) \<mapsto> x)) h = row n m h"
  by (simp add: row_def)

lemma row_pending: "i < n \<Longrightarrow> m (g, i) = None \<Longrightarrow> those (row n m g) = None"
  by (auto simp: those_None_iff row_def image_iff intro!: bexI[of _ i])

lemma row_nth: "i < n \<Longrightarrow> row n m g ! i = m (g, i)"
  by (simp add: row_def)

lemma length_row: "length (row n m g) = n"
  by (simp add: row_def)

lemma groupPromise_grp:
  "groupPromise o1 o2 o3 g (grp n m g) = map_option Fulfilled (col o1 o2 o3 n m g)"
  by (cases "those (row n m g)")
    (simp_all add: groupPromise_def collectOpenAiRuns_def collectEigenRuns_def grp_def col_def wrap_def)

lemma grp_fulfil:
  assumes "i < n" "m (g, i) = None"
  shows "allSettle i (Fulfilled x) (grp n m g) = grp n (m((g, i) \<mapsto> x)) g"
  using assms
  by (simp add: allSettle_def grp_def length_row row_nth row_update row_pending Let_def)

lemma grp_reject:
  assumes "i < n" "m (g, i) = None"
  shows "settledAs (allSettle i (Rejected e) (grp n m g)) = Some (Rejected e)"
  using assms
  by (simp add: allSettle_def grp_def length_row row_nth row_pending)

lemma col_other: "h \<noteq> g \<Longrightarrow> col o1 o2 o3 n (m((g, i) \<mapsto> x)) h = col o1 o2 o3 n m h"
  by (simp add: col_def row_other)

lemma out_pending:
  assumes "g < 3" "col o1 o2 o3 n m g = None"
  shows "settledAs (out o1 o2 o3 n m) = None"
proof -
  have "None \<in> set (map (col o1 o2 o3 n m) [0..<3])"
    using assms by (auto simp: image_iff intro!: bexI[of _ g])
  then show ?thesis by (simp add: out_def those_None_iff del: set_map)
qed

lemma out_fulfil:
  assumes g: "g < 3" and i: "i < n" and p: "m (g, i) = None"
  shows "notify g None (map_option Fulfilled (col o1 o2 o3 n (m((g, i) \<mapsto> x)) g)) (out o1 o2 o3 n m)
         = out o1 o2 o3 n (m((g, i) \<mapsto> x))"
proof (cases "col o1 o2 o3 n (m((g, i) \<mapsto> x)) g")
  case None
  have cp: "col o1 o2 o3 n m g = None"
    using i p by (simp add: col_def row_pending)
  have eq: "map (col o1 o2 o3 n (m((g, i) \<mapsto> x))) [0..<3] = map (col o1 o2 o3 n m) [0..<3]"
  proof (rule map_cong[OF refl])
    fix h show "col o1 o2 o3 n (m((g, i) \<mapsto> x)) h = col o1 o2 o3 n m h"
      using None cp col_other by (cases "h = g") simp_all
  qed
  show ?thesis
    unfolding out_def eq by (simp add: notify_def None)
next
  case (Some G)
  have cp: "col o1 o2 o3 n m g = None"
    using i p by (simp add: col_def row_pending)
  have u: "(map (col o1 o2 o3 n m) [0..<3])[g := Some G] = map (col o1 o2 o3 n (m((g, i) \<mapsto> x))) [0..<3]"
    using g Some by (intro map_upt_update) (simp_all add: col_other)
  have pend: "settledAs (out o1 o2 o3 n m) = None"
    using g cp by (rule out_pending)
  have slot: "slots (out o1 o2 o3 n m) ! g = None" "g < length (slots (out o1 o2 o3 n m))"
    using g cp by (simp_all add: out_def)
  have sl: "slots (out o1 o2 o3 n m) = map (col o1 o2 o3 n m) [0..<3]"
    by (simp add: out_def)
  show ?thesis
    unfolding notify_def Some
    using pend slot
    by (simp add: allSettle_def Let_def sl u) (simp add: out_def)
qed

lemma out_reject:
  assumes g: "g < 3" and i: "i < n" and p: "m (g, i) = None"
  shows "settledAs (notify g None (Some (Rejected e)) (out o1 o2 o3 n m)) = Some (Rejected e)"
proof -
  have cp: "col o1 o2 o3 n m g = None"
    using i p by (simp add: col_def row_pending)
  have pend: "settledAs (out o1 o2 o3 n m) = None"
    using g cp by (rule out_pending)
  have slot: "slots (out o1 o2 o3 n m) ! g = None" "g < length (slots (out o1 o2 o3 n m))"
    using g cp by (simp_all add: out_def)
  show ?thesis
    using pend slot by (simp add: notify_def allSettle_def)
qed

lemma start_stateOf: "start o1 o2 o3 n = stateOf o1 o2 o3 n Map.empty"
proof -
  have r: "row n Map.empty g = replicate n None" for g
    by (simp add: row_def map_replicate_const)
  have g: "allInit n = grp n Map.empty g" for g
    by (simp add: allInit_def grp_def r)
  have u: "[0..<3] = [0, 1, 2]" by (simp add: upt_rec)
  have gs: "replicate 3 (allInit n) = map (grp n Map.empty) [0..<3]"
    by (simp add: g[symmetric] u numeral_3_eq_3)
  have c: "groupPromise o1 o2 o3 h (allInit n) = map_option Fulfilled (col o1 o2 o3 n Map.empty h)" for h
    unfolding g[of h] by (rule groupPromise_grp)
  have ce: "col o1 o2 o3 n Map.empty h = (if n = 0 then Some (wrap o1 o2 o3 h []) else None)" for h
    by (simp add: col_def r those_replicate_None)
  have o: "fold (\<lambda>g. notify g None (groupPromise o1 o2 o3 g (allInit n))) [0, 1, 2] (allInit 3)
           = out o1 o2 o3 n Map.empty"
    unfolding c ce out_def u
    by (simp add: notify_def allSettle_def allInit_def numeral_3_eq_3)
  show ?thesis
    unfolding start_def o gs stateOf_def by (rule refl)
qed

lemma groups_stateOf_nth: "g < 3 \<Longrightarrow> groups (stateOf o1 o2 o3 n m) ! g = grp n m g"
  by (simp add: stateOf_def)

lemma grp_other: "h \<noteq> g \<Longrightarrow> grp n (m((g, i) \<mapsto> x)) h = grp n m h"
  by (simp add: grp_def row_other)

lemma deliver_fulfil:
  assumes g: "g < 3" and i: "i < n" and p: "m (g, i) = None" and r: "runOf g r = Fulfilled x"
  shows "deliver o1 o2 o3 (g, i, r) (stateOf o1 o2 o3 n m) = stateOf o1 o2 o3 n (m((g, i) \<mapsto> x))"
proof -
  have a: "allSettle i (runOf g r) (grp n m g) = grp n (m((g, i) \<mapsto> x)) g"
    unfolding r using i p by (rule grp_fulfil)
  have was: "groupPromise o1 o2 o3 g (grp n m g) = None"
    using i p by (simp add: groupPromise_grp col_def row_pending)
  have gs: "(map (grp n m) [0..<3])[g := grp n (m((g, i) \<mapsto> x)) g] = map (grp n (m((g, i) \<mapsto> x))) [0..<3]"
    using g by (intro map_upt_update) (simp_all add: grp_other)
  have o: "notify g None (groupPromise o1 o2 o3 g (grp n (m((g, i) \<mapsto> x)) g)) (out o1 o2 o3 n m)
           = out o1 o2 o3 n (m((g, i) \<mapsto> x))"
    unfolding groupPromise_grp using g i p by (rule out_fulfil)
  show ?thesis
    using g by (simp add: deliver_def groups_stateOf_nth a was o Let_def) (simp add: stateOf_def gs o)
qed

lemma groupPromise_rejected:
  "settledAs p = Some (Rejected e) \<Longrightarrow> groupPromise o1 o2 o3 g p = Some (Rejected e)"
  by (simp add: groupPromise_def collectOpenAiRuns_def collectEigenRuns_def)

lemma deliver_reject:
  assumes g: "g < 3" and i: "i < n" and p: "m (g, i) = None" and r: "runOf g r = Rejected e"
  shows "settledAs (outer (deliver o1 o2 o3 (g, i, r) (stateOf o1 o2 o3 n m))) = Some (Rejected e)"
proof -
  have a: "settledAs (allSettle i (runOf g r) (grp n m g)) = Some (Rejected e)"
    unfolding r using i p by (rule grp_reject)
  have now: "groupPromise o1 o2 o3 g (allSettle i (runOf g r) (grp n m g)) = Some (Rejected e)"
    using a by (rule groupPromise_rejected)
  have was: "groupPromise o1 o2 o3 g (grp n m g) = None"
    using i p by (simp add: groupPromise_grp col_def row_pending)
  have o: "settledAs (notify g None (Some (Rejected e)) (out o1 o2 o3 n m)) = Some (Rejected e)"
    using g i p by (rule out_reject)
  show ?thesis
    using g by (simp add: deliver_def groups_stateOf_nth was now Let_def) (simp add: stateOf_def o)
qed

lemma allSettle_settled: "settledAs p = Some s \<Longrightarrow> settledAs (allSettle i r p) = Some s"
  by (cases r) (simp_all add: allSettle_def Let_def)

lemma notify_settled: "settledAs p = Some s \<Longrightarrow> settledAs (notify g was now p) = Some s"
  by (simp add: notify_def allSettle_settled split: option.splits)

lemma deliver_settled:
  "settledAs (outer st) = Some s \<Longrightarrow> settledAs (outer (deliver o1 o2 o3 ev st)) = Some s"
  by (cases ev) (simp add: deliver_def Let_def notify_settled)

lemma fold_deliver_settled:
  "settledAs (outer st) = Some s \<Longrightarrow> settledAs (outer (fold (deliver o1 o2 o3) evs st)) = Some s"
  by (induction evs arbitrary: st) (simp_all add: deliver_settled)

lemma fold_deliver_fulfilled:
  assumes "distinct (map callOf evs)"
    and "\<forall>ev \<in> set evs. fst (callOf ev) < 3 \<and> snd (callOf ev) < n \<and> m (callOf ev) = None"
    and "\<forall>ev \<in> set evs. runOf (fst ev) (snd (snd ev)) = Fulfilled (res ev)"
  shows "\<exists>m'. fold (deliver o1 o2 o3) evs (stateOf o1 o2 o3 n m) = stateOf o1 o2 o3 n m'
          \<and> (\<forall>c. c \<notin> callOf ` set evs \<longrightarrow> m' c = m c)
          \<and> (\<forall>ev \<in> set evs. m' (callOf ev) = Some (res ev))"
  using assms
proof (induction evs arbitrary: m)
  case Nil
  show ?case by (auto intro: exI[of _ m])
next
  case (Cons ev evs)
  obtain g i r where ev: "ev = (g, i, r)" by (cases ev)
  from Cons.prems ev have g: "g < 3" and i: "i < n" and p: "m (g, i) = None"
    and r: "runOf g r = Fulfilled (res ev)"
    by (simp_all add: callOf_def)
  let ?m = "m((g, i) \<mapsto> res ev)"
  have step: "deliver o1 o2 o3 ev (stateOf o1 o2 o3 n m) = stateOf o1 o2 o3 n ?m"
    unfolding ev using g i p r[unfolded ev] by (rule deliver_fulfil)
  have fresh: "(g, i) \<notin> callOf ` set evs"
    using Cons.prems(1) ev by (simp add: callOf_def)
  have pre: "\<forall>ev' \<in> set evs. fst (callOf ev') < 3 \<and> snd (callOf ev') < n \<and> ?m (callOf ev') = None"
  proof
    fix ev' assume e': "ev' \<in> set evs"
    then have "callOf ev' \<in> callOf ` set evs" by (rule imageI)
    with fresh have "callOf ev' \<noteq> (g, i)" by metis
    with Cons.prems(2) e'
    show "fst (callOf ev') < 3 \<and> snd (callOf ev') < n \<and> ?m (callOf ev') = None" by simp
  qed
  have d: "distinct (map callOf evs)" using Cons.prems(1) by simp
  have f: "\<forall>ev \<in> set evs. runOf (fst ev) (snd (snd ev)) = Fulfilled (res ev)"
    using Cons.prems(3) by simp
  from Cons.IH[of ?m, OF d pre f]
  obtain m' where m': "fold (deliver o1 o2 o3) evs (stateOf o1 o2 o3 n ?m) = stateOf o1 o2 o3 n m'"
    "\<forall>c. c \<notin> callOf ` set evs \<longrightarrow> m' c = ?m c"
    "\<forall>ev \<in> set evs. m' (callOf ev) = Some (res ev)"
    by blast
  have "m' (callOf ev) = Some (res ev)"
    using m'(2) fresh ev by (simp add: callOf_def)
  moreover have "\<forall>c. c \<notin> callOf ` set (ev # evs) \<longrightarrow> m' c = m c"
    using m'(2) ev by (auto simp: callOf_def)
  ultimately show ?case
    using m'(1,3) step by auto
qed

subsection \<open>Validation\<close>

lemma trim_empty_iff: "trim p = [] \<longleftrightarrow> list_all isWhiteSpace p"
proof
  assume "list_all isWhiteSpace p"
  then have d: "dropWhile isWhiteSpace p = []" by (simp add: list_all_iff)
  show "trim p = []" unfolding trim_def d by simp
next
  assume t: "trim p = []"
  show "list_all isWhiteSpace p"
  proof (cases "dropWhile isWhiteSpace p")
    case Nil
    then show ?thesis by (simp add: list_all_iff)
  next
    case (Cons c cs)
    then have "\<not> isWhiteSpace c" using hd_dropWhile[of isWhiteSpace p] by simp
    moreover from t Cons have "\<forall>x \<in> set (c # cs). isWhiteSpace x"
      by (simp add: trim_def)
    ultimately show ?thesis by simp
  qed
qed

lemma POST_prompt_missing:
  assumes "promptMissing parsed"
  shows "POST k e parsed uuid timeline =
           \<lparr>response = Some (ErrorResponse 400 (utf16 ''Prompt is required.'')),
            logged = [], issued = []\<rparr>"
proof (cases parsed)
  case None
  then show ?thesis by (simp add: POST_def)
next
  case (Some b)
  show ?thesis
  proof (cases "CompareRequest.prompt b")
    case None
    with Some show ?thesis by (simp add: POST_def)
  next
    case (Some p)
    with assms \<open>parsed = Some b\<close> have "trim p = []"
      by (simp add: promptMissing_def trim_empty_iff)
    with Some \<open>parsed = Some b\<close> show ?thesis by (simp add: POST_def)
  qed
qed

lemma prompt_present:
  assumes "\<not> promptMissing parsed"
  obtains b p where "parsed = Some b" "CompareRequest.prompt b = Some p" "trim p \<noteq> []"
  using assms by (auto simp: promptMissing_def trim_empty_iff split: option.splits)

lemma POST_key_missing:
  assumes "\<not> promptMissing parsed"
  shows "missing (OPENAI_API_KEY e) \<longrightarrow>
           POST k e parsed uuid timeline =
             \<lparr>response = Some (ErrorResponse 500 (utf16 ''Missing OPENAI_API_KEY environment variable.'')),
              logged = [], issued = []\<rparr>"
    and "\<not> missing (OPENAI_API_KEY e) \<and> missing (EIGENAI_API_KEY e) \<longrightarrow>
           POST k e parsed uuid timeline =
             \<lparr>response = Some (ErrorResponse 500 (utf16 ''Missing EIGENAI_API_KEY environment variable.'')),
              logged = [], issued = []\<rparr>"
proof -
  from assms obtain b p where "parsed = Some b" "CompareRequest.prompt b = Some p" "trim p \<noteq> []"
    by (rule prompt_present)
  then show "missing (OPENAI_API_KEY e) \<longrightarrow>
           POST k e parsed uuid timeline =
             \<lparr>response = Some (ErrorResponse 500 (utf16 ''Missing OPENAI_API_KEY environment variable.'')),
              logged = [], issued = []\<rparr>"
    and "\<not> missing (OPENAI_API_KEY e) \<and> missing (EIGENAI_API_KEY e) \<longrightarrow>
           POST k e parsed uuid timeline =
             \<lparr>response = Some (ErrorResponse 500 (utf16 ''Missing EIGENAI_API_KEY environment variable.'')),
              logged = [], issued = []\<rparr>"
    by (auto simp: POST_def missing_def)
qed

lemma POST_valid:
  assumes "\<not> promptMissing parsed" "\<not> missing (OPENAI_API_KEY e)" "\<not> missing (EIGENAI_API_KEY e)"
  obtains o1 o2 o3 where
    "POST k e parsed uuid timeline = compareAll o1 o2 o3 timeline"
    "openAiOptions.runs o1 = effectiveRuns (MIN_RUNS k) (MAX_RUNS k) (requestedRuns parsed)"
    "openAiOptions.runs o2 = effectiveRuns (MIN_RUNS k) (MAX_RUNS k) (requestedRuns parsed)"
    "openAiOptions.runs o3 = effectiveRuns (MIN_RUNS k) (MAX_RUNS k) (requestedRuns parsed)"
proof -
  from assms(1) obtain b p where b: "parsed = Some b" "CompareRequest.prompt b = Some p" "trim p \<noteq> []"
    by (rule prompt_present)
  from assms(2,3) obtain k1 k2 where keys: "OPENAI_API_KEY e = Some k1" "k1 \<noteq> []"
      "EIGENAI_API_KEY e = Some k2" "k2 \<noteq> []"
    by (auto simp: missing_def)
  let ?R = "effectiveRuns (MIN_RUNS k) (MAX_RUNS k) (CompareRequest.runs b)"
  let ?T = "case eigenMaxTokens b of None \<Rightarrow> EIGENAI_MAX_TOKENS e | Some t \<Rightarrow> t"
  let ?E = "orDefault (EIGENAI_API_URL e) EIGEN_DEFAULT_URL"
  let ?A = "\<lparr>endpoint = orDefault (OPENAI_API_URL e) OPENAI_DEFAULT_URL, apiKey = k1,
             model = OPENAI_MODEL k, prompt = trim p, runs = ?R,
             maxTokens = (case openaiMaxTokens b of None \<Rightarrow> OPENAI_MAX_TOKENS e | Some t \<Rightarrow> t)\<rparr>"
  let ?B = "\<lparr>endpoint = ?E, apiKey = k2, model = EIGENAI_MODEL k, prompt = trim p, runs = ?R,
             maxTokens = ?T,
             seed = (case eigenSeed b of Some (Fin x) \<Rightarrow> Math_floor (Fin x) | _ \<Rightarrow> DEFAULT_SEED e),
             seedUuid = None\<rparr>"
  let ?C = "\<lparr>endpoint = ?E, apiKey = k2, model = EIGENAI_MODEL k, prompt = trim p, runs = ?R,
             maxTokens = ?T, seed = Fin (of_int (uuidToSeed uuid)), seedUuid = Some uuid\<rparr>"
  have R: "requestedRuns parsed = CompareRequest.runs b"
    by (simp add: requestedRuns_def b)
  show thesis
  proof (rule that[of ?A ?B ?C])
    show "POST k e parsed uuid timeline = compareAll ?A ?B ?C timeline"
      by (simp add: POST_def b keys Let_def)
    show "openAiOptions.runs ?A = effectiveRuns (MIN_RUNS k) (MAX_RUNS k) (requestedRuns parsed)"
      unfolding R by simp
    show "openAiOptions.runs ?B = effectiveRuns (MIN_RUNS k) (MAX_RUNS k) (requestedRuns parsed)"
      unfolding R by simp
    show "openAiOptions.runs ?C = effectiveRuns (MIN_RUNS k) (MAX_RUNS k) (requestedRuns parsed)"
      unfolding R by simp
  qed
qed

lemma exampleReply_result: "runOf g (exampleReply g i) = Fulfilled (exampleResult g i)"
  by (simp add: runOf_def exampleReply_def exampleResult_def openAiRun_def callEigenAiRun_def
      ok_def extractMessage_def firstFinishReason_def parseEigenMessage_def trim_def)

lemma example_valid:
  "\<not> promptMissing (Some (exampleRequest ''hi'' r))"
  "\<not> missing (OPENAI_API_KEY exampleEnv)" "\<not> missing (EIGENAI_API_KEY exampleEnv)"
  by (simp_all add: promptMissing_def exampleRequest_def missing_def exampleEnv_def utf16_def
      isWhiteSpace_def)

lemma example_runs:
  "arrayLength (effectiveRuns (MIN_RUNS exampleConstants) (MAX_RUNS exampleConstants)
      (requestedRuns (Some (exampleRequest ''hi'' (Some (Fin 2)))))) = Inr 2"
  by (simp add: exampleConstants_def requestedRuns_def exampleRequest_def effectiveRuns_def
      clamp_def arrayLength_def)

text \<open>
  C6. For every request whose prompt is absent, empty or white space only, whatever the
  configuration and whatever the upstream services would do, the response is the 400 with
  the message \<open>Prompt is required.\<close>, nothing is logged and no upstream call is issued.
\<close>

theorem empty_prompt_rejected:
  assumes "promptMissing parsed"
  shows "POST k e parsed uuid timeline =
           \<lparr>response = Some (ErrorResponse 400 (utf16 ''Prompt is required.'')),
            logged = [], issued = []\<rparr>"
  using assms by (rule POST_prompt_missing)

theorem empty_prompt_rejected_witness:
  "promptMissing (Some (exampleRequest ''  '' None))
   \<and> POST exampleConstants exampleEnv (Some (exampleRequest ''  '' None)) exampleUuid
         [(0, 0, exampleReply 0 0)]
       = \<lparr>response = Some (ErrorResponse 400 (utf16 ''Prompt is required.'')),
          logged = [], issued = []\<rparr>"
proof -
  have h: "promptMissing (Some (exampleRequest ''  '' None))"
    by (simp add: promptMissing_def exampleRequest_def utf16_def isWhiteSpace_def)
  from h empty_prompt_rejected[OF h] show ?thesis by simp
qed

text \<open>
  C7, as amended. For every request with a prompt that is not empty after trimming: when
  the first provider's credential is missing, the response is the 500 whose message names
  \<open>OPENAI_API_KEY\<close>; when it is present and the second provider's credential is
  missing, the response is the 500 whose message names \<open>EIGENAI_API_KEY\<close>; in both
  cases no upstream call is issued.
\<close>

theorem missing_credential_rejected:
  assumes "\<not> promptMissing parsed"
  shows "(missing (OPENAI_API_KEY e) \<longrightarrow>
           POST k e parsed uuid timeline =
             \<lparr>response = Some (ErrorResponse 500
                                 (utf16 ''Missing OPENAI_API_KEY environment variable.'')),
              logged = [], issued = []\<rparr>)
       \<and> (\<not> missing (OPENAI_API_KEY e) \<and> missing (EIGENAI_API_KEY e) \<longrightarrow>
           POST k e parsed uuid timeline =
             \<lparr>response = Some (ErrorResponse 500
                                 (utf16 ''Missing EIGENAI_API_KEY environment variable.'')),
              logged = [], issued = []\<rparr>)"
  using POST_key_missing[OF assms] by blast

theorem missing_credential_rejected_witness:
  "\<not> promptMissing (Some (exampleRequest ''hi'' None))
   \<and> missing (OPENAI_API_KEY (exampleEnv\<lparr>OPENAI_API_KEY := None\<rparr>))
   \<and> POST exampleConstants (exampleEnv\<lparr>OPENAI_API_KEY := None\<rparr>)
         (Some (exampleRequest ''hi'' None)) exampleUuid []
       = \<lparr>response = Some (ErrorResponse 500
                             (utf16 ''Missing OPENAI_API_KEY environment variable.'')),
          logged = [], issued = []\<rparr>
   \<and> \<not> missing (OPENAI_API_KEY (exampleEnv\<lparr>EIGENAI_API_KEY := Some []\<rparr>))
   \<and> missing (EIGENAI_API_KEY (exampleEnv\<lparr>EIGENAI_API_KEY := Some []\<rparr>))
   \<and> POST exampleConstants (exampleEnv\<lparr>EIGENAI_API_KEY := Some []\<rparr>)
         (Some (exampleRequest ''hi'' None)) exampleUuid []
       = \<lparr>response = Some (ErrorResponse 500
                             (utf16 ''Missing EIGENAI_API_KEY environment variable.'')),
          logged = [], issued = []\<rparr>"
proof -
  have h: "\<not> promptMissing (Some (exampleRequest ''hi'' None))"
    by (rule example_valid)
  have 1: "missing (OPENAI_API_KEY (exampleEnv\<lparr>OPENAI_API_KEY := None\<rparr>))"
    by (simp add: missing_def)
  have 2: "\<not> missing (OPENAI_API_KEY (exampleEnv\<lparr>EIGENAI_API_KEY := Some []\<rparr>))"
    "missing (EIGENAI_API_KEY (exampleEnv\<lparr>EIGENAI_API_KEY := Some []\<rparr>))"
    by (simp_all add: missing_def exampleEnv_def utf16_def)
  from missing_credential_rejected[OF h, of "exampleEnv\<lparr>OPENAI_API_KEY := None\<rparr>"] 1
  have 3: "POST exampleConstants (exampleEnv\<lparr>OPENAI_API_KEY := None\<rparr>)
         (Some (exampleRequest ''hi'' None)) exampleUuid []
       = \<lparr>response = Some (ErrorResponse 500
                             (utf16 ''Missing OPENAI_API_KEY environment variable.'')),
          logged = [], issued = []\<rparr>"
    by blast
  from missing_credential_rejected[OF h, of "exampleEnv\<lparr>EIGENAI_API_KEY := Some []\<rparr>"] 2
  have 4: "POST exampleConstants (exampleEnv\<lparr>EIGENAI_API_KEY := Some []\<rparr>)
         (Some (exampleRequest ''hi'' None)) exampleUuid []
       = \<lparr>response = Some (ErrorResponse 500
                             (utf16 ''Missing EIGENAI_API_KEY environment variable.'')),
          logged = [], issued = []\<rparr>"
    by blast
  from h 1 2 3 4 show ?thesis by blast
qed

text \<open>
  C7 as it is stated fails: the prompt is checked before the credentials, so a request
  with an empty prompt gets the 400 also when a credential is missing.
\<close>

theorem missing_credential_empty_prompt:
  "missing (OPENAI_API_KEY (exampleEnv\<lparr>OPENAI_API_KEY := None\<rparr>))
   \<and> response (POST exampleConstants (exampleEnv\<lparr>OPENAI_API_KEY := None\<rparr>)
         (Some (exampleRequest '''' None)) exampleUuid [])
       = Some (ErrorResponse 400 (utf16 ''Prompt is required.''))"
  by (simp add: missing_def POST_def exampleRequest_def utf16_def trim_def)

subsection \<open>A failing upstream call\<close>

lemma upstreamFails_rejects: "upstreamFails r \<Longrightarrow> \<exists>e. runOf g r = Rejected e"
  by (cases r) (simp_all add: upstreamFails_def runOf_def openAiRun_def callEigenAiRun_def)

lemma firstRejection_split:
  assumes "ev \<in> set timeline" "runOf (fst ev) (snd (snd ev)) = Rejected e"
  shows "\<exists>pre g i r post err. timeline = pre @ (g, i, r) # post
           \<and> (\<forall>ev' \<in> set pre. \<exists>x. runOf (fst ev') (snd (snd ev')) = Fulfilled x)
           \<and> runOf g r = Rejected err \<and> firstRejection timeline = Some err"
  using assms
proof (induction timeline)
  case Nil
  then show ?case by simp
next
  case (Cons a timeline)
  obtain g i r where a: "a = (g, i, r)" by (cases a)
  show ?case
  proof (cases "runOf g r")
    case (Rejected err)
    have "a # timeline = [] @ (g, i, r) # timeline" by (simp add: a)
    moreover have "firstRejection (a # timeline) = Some err" by (simp add: a Rejected)
    ultimately show ?thesis using Rejected by fastforce
  next
    case (Fulfilled x)
    with Cons.prems a have "ev \<in> set timeline" by auto
    from Cons.IH[OF this Cons.prems(2)]
    obtain pre g' i' r' post err where s: "timeline = pre @ (g', i', r') # post"
      "\<forall>ev' \<in> set pre. \<exists>x. runOf (fst ev') (snd (snd ev')) = Fulfilled x"
      "runOf g' r' = Rejected err" "firstRejection timeline = Some err"
      by blast
    have 1: "a # timeline = (a # pre) @ (g', i', r') # post" by (simp add: s(1))
    have 2: "\<forall>ev' \<in> set (a # pre). \<exists>x. runOf (fst ev') (snd (snd ev')) = Fulfilled x"
      using s(2) Fulfilled a by simp
    have 3: "firstRejection (a # timeline) = Some err"
      by (simp add: a Fulfilled s(4))
    from 1 2 s(3) 3 show ?thesis by blast
  qed
qed

lemma fold_deliver_rejected:
  assumes wf: "wellFormed n timeline"
    and ev: "ev \<in> set timeline" "runOf (fst ev) (snd (snd ev)) = Rejected e"
  shows "\<exists>err. firstRejection timeline = Some err
           \<and> settledAs (outer (fold (deliver o1 o2 o3) timeline (start o1 o2 o3 n))) = Some (Rejected err)"
proof -
  from firstRejection_split[OF ev]
  obtain pre g i r post err where s: "timeline = pre @ (g, i, r) # post"
    "\<forall>ev' \<in> set pre. \<exists>x. runOf (fst ev') (snd (snd ev')) = Fulfilled x"
    "runOf g r = Rejected err" "firstRejection timeline = Some err"
    by blast
  from s(2) obtain res where res: "\<forall>ev' \<in> set pre. runOf (fst ev') (snd (snd ev')) = Fulfilled (res ev')"
    by metis
  from wf s(1) have d: "distinct (map callOf pre)" and fresh: "(g, i) \<notin> callOf ` set pre"
    and g: "g < 3" and i: "i < n"
    and range: "\<forall>ev' \<in> set pre. fst (callOf ev') < 3 \<and> snd (callOf ev') < n"
    by (auto simp: wellFormed_def list_all_iff callOf_def)
  have "\<forall>ev' \<in> set pre. fst (callOf ev') < 3 \<and> snd (callOf ev') < n \<and> Map.empty (callOf ev') = None"
    using range by simp
  from fold_deliver_fulfilled[OF d this res, of o1 o2 o3]
  obtain m' where m': "fold (deliver o1 o2 o3) pre (stateOf o1 o2 o3 n Map.empty) = stateOf o1 o2 o3 n m'"
    "\<forall>c. c \<notin> callOf ` set pre \<longrightarrow> m' c = None"
    by auto
  from m'(2) fresh have p: "m' (g, i) = None" by simp
  have "settledAs (outer (deliver o1 o2 o3 (g, i, r) (stateOf o1 o2 o3 n m'))) = Some (Rejected err)"
    using g i p s(3) by (rule deliver_reject)
  then have "settledAs (outer (fold (deliver o1 o2 o3) post
               (deliver o1 o2 o3 (g, i, r) (stateOf o1 o2 o3 n m')))) = Some (Rejected err)"
    by (rule fold_deliver_settled)
  then have "settledAs (outer (fold (deliver o1 o2 o3) timeline (start o1 o2 o3 n))) = Some (Rejected err)"
    by (simp add: s(1) start_stateOf m'(1))
  with s(4) show ?thesis by blast
qed

text \<open>
  C8. For every request that passes validation and every well-formed timeline in which
  some upstream call of some group fails (a status that is not 2xx, a transport failure
  or a timeout), the whole comparison rejects: the response is the 500 with the fixed
  message, which holds nothing of the upstream error and no result of any group, and
  what is logged is the error of the first run that rejected.
\<close>

theorem upstream_failure_fails_request:
  assumes "\<not> promptMissing parsed"
    and "\<not> missing (OPENAI_API_KEY e)" and "\<not> missing (EIGENAI_API_KEY e)"
    and "arrayLength (effectiveRuns (MIN_RUNS k) (MAX_RUNS k) (requestedRuns parsed)) = Inr n"
    and "wellFormed n timeline"
    and "(g, i, r) \<in> set timeline" and "upstreamFails r"
  shows "response (POST k e parsed uuid timeline)
           = Some (ErrorResponse 500
                     (utf16 ''Failed to compare models. Check server logs for details.''))
         \<and> (\<exists>err. firstRejection timeline = Some err
                  \<and> logged (POST k e parsed uuid timeline) = [err])"
proof -
  from assms(1-3) obtain o1 o2 o3 where
    P: "POST k e parsed uuid timeline = compareAll o1 o2 o3 timeline"
    and R: "openAiOptions.runs o1 = effectiveRuns (MIN_RUNS k) (MAX_RUNS k) (requestedRuns parsed)"
    by (rule POST_valid)
  from assms(7) obtain e0 where "runOf g r = Rejected e0"
    using upstreamFails_rejects by blast
  then have "runOf (fst (g, i, r)) (snd (snd (g, i, r))) = Rejected e0" by simp
  from fold_deliver_rejected[OF assms(5) assms(6) this, of o1 o2 o3]
  obtain err where err: "firstRejection timeline = Some err"
    "settledAs (outer (fold (deliver o1 o2 o3) timeline (start o1 o2 o3 n))) = Some (Rejected err)"
    by blast
  have "compareAll o1 o2 o3 timeline =
          \<lparr>response = Some (ErrorResponse 500
                     (utf16 ''Failed to compare models. Check server logs for details.'')),
           logged = [err],
           issued = replicate n (OpenAiFetch (endpoint o1) (apiKey o1) (model o1)
                                  (openAiOptions.prompt o1) (maxTokens o1))
                   @ replicate n (EigenFetch (endpoint o2) (apiKey o2) (model o2) (seed o2)
                                    (maxTokens o2) (openAiOptions.prompt o2))
                   @ replicate n (EigenFetch (endpoint o3) (apiKey o3) (model o3) (seed o3)
                                    (maxTokens o3) (openAiOptions.prompt o3))\<rparr>"
    unfolding compareAll_def Let_def R assms(4) by (simp add: err(2))
  with P err(1) show ?thesis by simp
qed

theorem upstream_failure_fails_request_witness:
  "\<not> promptMissing (Some (exampleRequest ''hi'' (Some (Fin 2))))
   \<and> \<not> missing (OPENAI_API_KEY exampleEnv) \<and> \<not> missing (EIGENAI_API_KEY exampleEnv)
   \<and> arrayLength (effectiveRuns (MIN_RUNS exampleConstants) (MAX_RUNS exampleConstants)
        (requestedRuns (Some (exampleRequest ''hi'' (Some (Fin 2)))))) = Inr 2
   \<and> wellFormed 2 [(0, 1, exampleReply 0 1), (2, 0, Responds 503 (utf16 ''busy'') None),
                     (1, 1, FetchRejects AbortError)]
   \<and> upstreamFails (Responds 503 (utf16 ''busy'') None)
   \<and> firstRejection [(0, 1, exampleReply 0 1), (2, 0, Responds 503 (utf16 ''busy'') None),
                       (1, 1, FetchRejects AbortError)]
       = Some (HttpError (utf16 ''EigenAI'') 503 (utf16 ''busy''))
   \<and> response (POST exampleConstants exampleEnv (Some (exampleRequest ''hi'' (Some (Fin 2))))
         exampleUuid
         [(0, 1, exampleReply 0 1), (2, 0, Responds 503 (utf16 ''busy'') None),
          (1, 1, FetchRejects AbortError)])
       = Some (ErrorResponse 500
                 (utf16 ''Failed to compare models. Check server logs for details.''))
   \<and> logged (POST exampleConstants exampleEnv (Some (exampleRequest ''hi'' (Some (Fin 2))))
         exampleUuid
         [(0, 1, exampleReply 0 1), (2, 0, Responds 503 (utf16 ''busy'') None),
          (1, 1, FetchRejects AbortError)])
       = [HttpError (utf16 ''EigenAI'') 503 (utf16 ''busy'')]"
proof -
  let ?tl = "[(0, 1, exampleReply 0 1), (2, 0, Responds 503 (utf16 ''busy'') None),
              (1, 1, FetchRejects AbortError)]"
  have wf: "wellFormed 2 ?tl"
    by (simp add: wellFormed_def callOf_def)
  have mem: "(2, 0, Responds 503 (utf16 ''busy'') None) \<in> set ?tl" by simp
  have f: "upstreamFails (Responds 503 (utf16 ''busy'') None)"
    by (simp add: upstreamFails_def ok_def)
  have fr: "firstRejection ?tl = Some (HttpError (utf16 ''EigenAI'') 503 (utf16 ''busy''))"
    by (simp add: runOf_def exampleReply_def openAiRun_def callEigenAiRun_def ok_def)
  from upstream_failure_fails_request[OF example_valid example_runs wf mem f, of exampleUuid] fr
  have "response (POST exampleConstants exampleEnv (Some (exampleRequest ''hi'' (Some (Fin 2))))
         exampleUuid ?tl)
       = Some (ErrorResponse 500
                 (utf16 ''Failed to compare models. Check server logs for details.''))
     \<and> logged (POST exampleConstants exampleEnv (Some (exampleRequest ''hi'' (Some (Fin 2))))
         exampleUuid ?tl)
       = [HttpError (utf16 ''EigenAI'') 503 (utf16 ''busy'')]"
    by simp
  with example_valid example_runs wf f fr show ?thesis by blast
qed

subsection \<open>The order of the responses\<close>

lemma those_map_Some: "those (map Some xs) = Some xs"
  by (simp add: those_Some_iff)

lemma groupResponses_wrap: "groupResponses (wrap o1 o2 o3 g xs) = xs"
  by (simp add: wrap_def)

lemma groupRuns_wrap:
  "groupRuns (wrap o1 o2 o3 g xs) =
     (if g = 0 then openAiOptions.runs o1 else if g = 1 then openAiOptions.runs o2
      else openAiOptions.runs o3)"
  by (simp add: wrap_def)

lemma out_complete:
  assumes "\<forall>g < 3. \<forall>i < n. m (g, i) = Some (result g i)"
  shows "settledAs (out o1 o2 o3 n m) =
           Some (Fulfilled [wrap o1 o2 o3 0 (map (result 0) [0..<n]),
                            wrap o1 o2 o3 1 (map (result 1) [0..<n]),
                            wrap o1 o2 o3 2 (map (result 2) [0..<n])])"
proof -
  have r: "row n m g = map Some (map (result g) [0..<n])" if "g < 3" for g
    using assms that by (simp add: row_def)
  have c: "col o1 o2 o3 n m g = Some (wrap o1 o2 o3 g (map (result g) [0..<n]))" if "g < 3" for g
    unfolding col_def r[OF that] those_map_Some by simp
  have u: "[0..<3] = [0, 1, 2]" by (simp add: upt_rec)
  show ?thesis
    by (simp add: out_def u c)
qed

text \<open>
  C9. For every request that passes validation, every run count \<open>n\<close> and every order
  in which the \<open>3n\<close> upstream calls complete, if every run fulfils then the comparison
  is sent, and in each group the response at index \<open>i\<close> is the result of run \<open>i\<close>:
  the order of the responses is the order in which the runs were issued, not the order
  of completion.
\<close>

theorem responses_in_run_order:
  assumes "\<not> promptMissing parsed"
    and "\<not> missing (OPENAI_API_KEY e)" and "\<not> missing (EIGENAI_API_KEY e)"
    and "arrayLength (effectiveRuns (MIN_RUNS k) (MAX_RUNS k) (requestedRuns parsed)) = Inr n"
    and "mset order = mset (List.product [0..<3] [0..<n])"
    and "\<forall>g < 3. \<forall>i < n. runOf g (reply g i) = Fulfilled (result g i)"
  shows "\<exists>p openai eigen eigenRandom.
           response (POST k e parsed uuid (map (\<lambda>(g, i). (g, i, reply g i)) order))
             = Some (Comparison p openai eigen eigenRandom)
           \<and> groupResponses openai = map (result 0) [0..<n]
           \<and> groupResponses eigen = map (result 1) [0..<n]
           \<and> groupResponses eigenRandom = map (result 2) [0..<n]"
proof -
  let ?tl = "map (\<lambda>(g, i). (g, i, reply g i)) order"
  from assms(1-3) obtain o1 o2 o3 where
    P: "POST k e parsed uuid ?tl = compareAll o1 o2 o3 ?tl"
    and R: "openAiOptions.runs o1 = effectiveRuns (MIN_RUNS k) (MAX_RUNS k) (requestedRuns parsed)"
    by (rule POST_valid)
  have calls: "map callOf ?tl = order"
    by (induction order) (auto simp: callOf_def)
  have "distinct (List.product [0..<3] [0..<n])"
    by (simp add: distinct_product)
  with assms(5) have d: "distinct order"
    using mset_eq_imp_distinct_iff by blast
  from assms(5) have s: "set order = set (List.product [0..<3] [0..<n])"
    by (rule mset_eq_setD)
  have d': "distinct (map callOf ?tl)" using d calls by simp
  have range: "\<forall>ev \<in> set ?tl. fst (callOf ev) < 3 \<and> snd (callOf ev) < n \<and> Map.empty (callOf ev) = None"
    using s by (auto simp: callOf_def)
  have ful: "\<forall>ev \<in> set ?tl. runOf (fst ev) (snd (snd ev)) = Fulfilled (result (fst ev) (fst (snd ev)))"
    using s assms(6) by auto
  from fold_deliver_fulfilled[OF d' range ful, of o1 o2 o3]
  obtain m' where m': "fold (deliver o1 o2 o3) ?tl (stateOf o1 o2 o3 n Map.empty) = stateOf o1 o2 o3 n m'"
    "\<forall>ev \<in> set ?tl. m' (callOf ev) = Some (result (fst ev) (fst (snd ev)))"
    by blast
  have all: "\<forall>g < 3. \<forall>i < n. m' (g, i) = Some (result g i)"
  proof (intro allI impI)
    fix g i :: nat assume "g < 3" "i < n"
    then have "(g, i) \<in> set order" using s by simp
    then have "(g, i, reply g i) \<in> set ?tl" by force
    with m'(2) show "m' (g, i) = Some (result g i)" by (force simp: callOf_def)
  qed
  have fin: "settledAs (outer (fold (deliver o1 o2 o3) ?tl (start o1 o2 o3 n))) =
           Some (Fulfilled [wrap o1 o2 o3 0 (map (result 0) [0..<n]),
                            wrap o1 o2 o3 1 (map (result 1) [0..<n]),
                            wrap o1 o2 o3 2 (map (result 2) [0..<n])])"
    unfolding start_stateOf m'(1) using out_complete[OF all] by (simp add: stateOf_def)
  have "response (compareAll o1 o2 o3 ?tl) =
          Some (Comparison (openAiOptions.prompt o1)
                  (wrap o1 o2 o3 0 (map (result 0) [0..<n]))
                  (wrap o1 o2 o3 1 (map (result 1) [0..<n]))
                  (wrap o1 o2 o3 2 (map (result 2) [0..<n])))"
    unfolding compareAll_def Let_def R assms(4) by (simp add: fin)
  with P show ?thesis
    using groupResponses_wrap by metis
qed

theorem responses_in_run_order_witness:
  "\<not> promptMissing (Some (exampleRequest ''hi'' (Some (Fin 2))))
   \<and> \<not> missing (OPENAI_API_KEY exampleEnv) \<and> \<not> missing (EIGENAI_API_KEY exampleEnv)
   \<and> arrayLength (effectiveRuns (MIN_RUNS exampleConstants) (MAX_RUNS exampleConstants)
        (requestedRuns (Some (exampleRequest ''hi'' (Some (Fin 2)))))) = Inr 2
   \<and> mset [(2, 1), (0, 1), (1, 1), (2, 0), (1, 0), (0, 0)] = mset (List.product [0..<3] [0..<2])
   \<and> (\<exists>p openai eigen eigenRandom.
         response (POST exampleConstants exampleEnv (Some (exampleRequest ''hi'' (Some (Fin 2))))
           exampleUuid
           (map (\<lambda>(g, i). (g, i, exampleReply g i))
              [(2, 1), (0, 1), (1, 1), (2, 0), (1, 0), (0, 0)]))
           = Some (Comparison p openai eigen eigenRandom)
         \<and> groupResponses openai = [exampleResult 0 0, exampleResult 0 1]
         \<and> groupResponses eigen = [exampleResult 1 0, exampleResult 1 1]
         \<and> groupResponses eigenRandom = [exampleResult 2 0, exampleResult 2 1])"
proof -
  have perm: "mset [(2, 1), (0, 1), (1, 1), (2, 0), (1, 0), (0, 0)]
                = mset (List.product [0..<3] [0..<2 :: nat])"
    by (simp add: upt_rec numeral_2_eq_2)
  have ok: "\<forall>g < 3. \<forall>i < 2. runOf g (exampleReply g i) = Fulfilled (exampleResult g i)"
    by (simp add: exampleReply_result)
  have u: "map (exampleResult g) [0..<2] = [exampleResult g 0, exampleResult g 1]" for g
    by (simp add: upt_rec)
  from responses_in_run_order[OF example_valid example_runs perm ok, of exampleUuid]
  have "\<exists>p openai eigen eigenRandom.
         response (POST exampleConstants exampleEnv (Some (exampleRequest ''hi'' (Some (Fin 2))))
           exampleUuid
           (map (\<lambda>(g, i). (g, i, exampleReply g i))
              [(2, 1), (0, 1), (1, 1), (2, 0), (1, 0), (0, 0)]))
           = Some (Comparison p openai eigen eigenRandom)
         \<and> groupResponses openai = [exampleResult 0 0, exampleResult 0 1]
         \<and> groupResponses eigen = [exampleResult 1 0, exampleResult 1 1]
         \<and> groupResponses eigenRandom = [exampleResult 2 0, exampleResult 2 1]"
    unfolding u .
  with example_valid example_runs perm show ?thesis by blast
qed

subsection \<open>The shape of the groups\<close>

lemma length_slots_allSettle: "length (slots (allSettle i r p)) = length (slots p)"
  by (cases r) (simp_all add: allSettle_def Let_def)

lemma allSettle_fulfilled_length:
  assumes "\<forall>xs. settledAs p = Some (Fulfilled xs) \<longrightarrow> length xs = length (slots p)"
    and "settledAs (allSettle i r p) = Some (Fulfilled xs)"
  shows "length xs = length (slots p)"
proof (cases "i < length (slots p) \<and> slots p ! i = None")
  case False
  with assms show ?thesis by (simp add: allSettle_def)
next
  case True
  show ?thesis
  proof (cases r)
    case (Rejected e)
    with True assms show ?thesis
      by (cases "settledAs p") (simp_all add: allSettle_def)
  next
    case (Fulfilled x)
    show ?thesis
    proof (cases "settledAs p")
      case (Some s)
      with True Fulfilled assms show ?thesis by (simp add: allSettle_def Let_def)
    next
      case None
      with True Fulfilled assms(2) have "those ((slots p)[i := Some x]) = Some xs"
        by (auto simp: allSettle_def Let_def)
      then have "(slots p)[i := Some x] = map Some xs" by (simp add: those_Some_iff)
      then have "length ((slots p)[i := Some x]) = length (map Some xs)" by simp
      then show ?thesis by simp
    qed
  qed
qed

lemma allSettle_skip:
  "\<not> (i < length (slots p) \<and> slots p ! i = None) \<Longrightarrow> allSettle i r p = p"
  unfolding allSettle_def by (rule if_not_P)

lemma allSettle_full:
  assumes "\<forall>Gs. settledAs p = Some (Fulfilled Gs) \<longrightarrow> slots p = map Some Gs"
    and "settledAs (allSettle i r p) = Some (Fulfilled Gs)"
  shows "slots (allSettle i r p) = map Some Gs"
proof (cases "i < length (slots p) \<and> slots p ! i = None")
  case False
  then have "allSettle i r p = p" by (rule allSettle_skip)
  with assms show ?thesis by simp
next
  case True
  show ?thesis
  proof (cases r)
    case (Rejected e)
    with True have "slots (allSettle i r p) = slots p"
      "settledAs (allSettle i r p) = (case settledAs p of Some s \<Rightarrow> Some s | None \<Rightarrow> Some (Rejected e))"
      by (simp_all add: allSettle_def)
    with assms show ?thesis
      by (cases "settledAs p") simp_all
  next
    case (Fulfilled x)
    show ?thesis
    proof (cases "settledAs p")
      case (Some s)
      with True Fulfilled assms(2) have "settledAs p = Some (Fulfilled Gs)"
        by (simp add: allSettle_def Let_def)
      with assms(1) have "slots p = map Some Gs" by simp
      with True show ?thesis by auto
    next
      case None
      with True Fulfilled assms(2) have "those ((slots p)[i := Some x]) = Some Gs"
        by (auto simp: allSettle_def Let_def)
      then have "(slots p)[i := Some x] = map Some Gs" by (simp add: those_Some_iff)
      with True Fulfilled show ?thesis by (simp add: allSettle_def Let_def)
    qed
  qed
qed

lemma allSettle_slot:
  assumes "slots (allSettle i r p) ! g = Some G"
  shows "slots p ! g = Some G \<or> (g = i \<and> r = Fulfilled G)"
proof (cases "i < length (slots p) \<and> slots p ! i = None")
  case False
  with assms show ?thesis by (simp add: allSettle_def)
next
  case True
  with assms show ?thesis
    by (cases r) (auto simp: allSettle_def Let_def nth_list_update split: if_splits)
qed

lemma groupPromise_fulfilled:
  assumes "groupPromise o1 o2 o3 g p = Some (Fulfilled G)"
  shows "\<exists>xs. settledAs p = Some (Fulfilled xs) \<and> G = wrap o1 o2 o3 g xs"
proof (cases "settledAs p")
  case None
  with assms show ?thesis
    by (simp add: groupPromise_def collectOpenAiRuns_def collectEigenRuns_def split: if_splits)
next
  case (Some s)
  with assms show ?thesis
    by (cases s)
      (auto simp: groupPromise_def collectOpenAiRuns_def collectEigenRuns_def wrap_def
            split: if_splits)
qed

lemma shaped_stateOf: "shaped o1 o2 o3 n (stateOf o1 o2 o3 n m)"
proof -
  have a: "length xs = n" if "those (row n m g) = Some xs" for g xs
  proof -
    from that have "row n m g = map Some xs" by (simp add: those_Some_iff)
    then have "length (row n m g) = length (map Some xs)" by simp
    then show ?thesis by (simp add: length_row)
  qed
  have b: "\<exists>xs. length xs = n \<and> G = wrap o1 o2 o3 g xs" if "col o1 o2 o3 n m g = Some G" for g G
    using that a by (auto simp: col_def)
  show ?thesis
    unfolding shaped_def
    by (auto simp: stateOf_def grp_def length_row out_def those_Some_iff a b)
qed

lemma shaped_deliver:
  assumes "shaped o1 o2 o3 n st"
  shows "shaped o1 o2 o3 n (deliver o1 o2 o3 ev st)"
proof -
  obtain g i r where ev: "ev = (g, i, r)" by (cases ev)
  show ?thesis
  proof (cases "g < 3")
    case False
    with assms ev show ?thesis by (simp add: deliver_def)
  next
    case True
    let ?p = "groups st ! g"
    let ?p' = "allSettle i (runOf g r) ?p"
    let ?o = "notify g (groupPromise o1 o2 o3 g ?p) (groupPromise o1 o2 o3 g ?p') (outer st)"
    have st': "deliver o1 o2 o3 ev st = \<lparr>groups = (groups st)[g := ?p'], outer = ?o\<rparr>"
      using True by (simp add: deliver_def ev Let_def)
    from assms have len: "length (groups st) = 3"
      and inner: "\<And>h. h < 3 \<Longrightarrow> length (slots (groups st ! h)) = n"
      and innerF: "\<And>h xs. h < 3 \<Longrightarrow> settledAs (groups st ! h) = Some (Fulfilled xs) \<Longrightarrow> length xs = n"
      and olen: "length (slots (outer st)) = 3"
      and oslot: "\<And>h G. h < 3 \<Longrightarrow> slots (outer st) ! h = Some G
                    \<Longrightarrow> \<exists>xs. length xs = n \<and> G = wrap o1 o2 o3 h xs"
      and ofull: "\<forall>Gs. settledAs (outer st) = Some (Fulfilled Gs) \<longrightarrow> slots (outer st) = map Some Gs"
      by (auto simp: shaped_def)
    have p'len: "length (slots ?p') = n"
      using inner[OF True] by (simp add: length_slots_allSettle)
    have p'F: "length xs = n" if "settledAs ?p' = Some (Fulfilled xs)" for xs
    proof -
      have "\<forall>xs. settledAs ?p = Some (Fulfilled xs) \<longrightarrow> length xs = length (slots ?p)"
        using innerF[OF True] inner[OF True] by simp
      from allSettle_fulfilled_length[OF this that] inner[OF True] show ?thesis by simp
    qed
    have g1: "length (slots (((groups st)[g := ?p']) ! h)) = n" if "h < 3" for h
      using that len inner p'len by (cases "h = g") simp_all
    have g2: "length xs = n" if "h < 3" "settledAs (((groups st)[g := ?p']) ! h) = Some (Fulfilled xs)" for h xs
      using that len innerF p'F by (cases "h = g") simp_all
    have o_cases: "?o = outer st \<or> (\<exists>s. groupPromise o1 o2 o3 g ?p' = Some s \<and> ?o = allSettle g s (outer st))"
      by (auto simp: notify_def split: option.splits)
    have o1': "length (slots ?o) = 3"
      using o_cases olen by (auto simp: length_slots_allSettle)
    have o2': "\<exists>xs. length xs = n \<and> G = wrap o1 o2 o3 h xs" if "h < 3" "slots ?o ! h = Some G" for h G
    proof -
      from o_cases show ?thesis
      proof
        assume "?o = outer st"
        with that oslot show ?thesis by simp
      next
        assume "\<exists>s. groupPromise o1 o2 o3 g ?p' = Some s \<and> ?o = allSettle g s (outer st)"
        then obtain s where s: "groupPromise o1 o2 o3 g ?p' = Some s" "?o = allSettle g s (outer st)"
          by blast
        from that(2) s(2) have "slots (allSettle g s (outer st)) ! h = Some G" by simp
        from allSettle_slot[OF this] show ?thesis
        proof
          assume "slots (outer st) ! h = Some G"
          with that(1) oslot show ?thesis by simp
        next
          assume "h = g \<and> s = Fulfilled G"
          with s(1) have "groupPromise o1 o2 o3 g ?p' = Some (Fulfilled G)" "h = g" by simp_all
          with groupPromise_fulfilled[OF this(1)] p'F show ?thesis by blast
        qed
      qed
    qed
    have o3': "slots ?o = map Some Gs" if "settledAs ?o = Some (Fulfilled Gs)" for Gs
    proof -
      from o_cases show ?thesis
      proof
        assume "?o = outer st"
        with that ofull show ?thesis by simp
      next
        assume "\<exists>s. groupPromise o1 o2 o3 g ?p' = Some s \<and> ?o = allSettle g s (outer st)"
        then obtain s where s: "?o = allSettle g s (outer st)" by blast
        with that have "settledAs (allSettle g s (outer st)) = Some (Fulfilled Gs)" by simp
        from allSettle_full[OF ofull this] s show ?thesis by simp
      qed
    qed
    show ?thesis
      unfolding st' shaped_def
      using len g1 g2 o1' o2' o3' by simp
  qed
qed

lemma shaped_fold:
  "shaped o1 o2 o3 n st \<Longrightarrow> shaped o1 o2 o3 n (fold (deliver o1 o2 o3) evs st)"
  by (induction evs arbitrary: st) (simp_all add: shaped_deliver)

lemma shaped_result:
  assumes "shaped o1 o2 o3 n st" "settledAs (outer st) = Some (Fulfilled Gs)"
  shows "\<exists>xs ys zs. length xs = n \<and> length ys = n \<and> length zs = n
           \<and> Gs = [wrap o1 o2 o3 0 xs, wrap o1 o2 o3 1 ys, wrap o1 o2 o3 2 zs]"
proof -
  from assms have sl: "slots (outer st) = map Some Gs" and len: "length (slots (outer st)) = 3"
    and oslot: "\<And>h G. h < 3 \<Longrightarrow> slots (outer st) ! h = Some G
                    \<Longrightarrow> \<exists>xs. length xs = n \<and> G = wrap o1 o2 o3 h xs"
    by (auto simp: shaped_def)
  from sl len have l3: "length Gs = 3" by simp
  then obtain a b c where Gs: "Gs = [a, b, c]"
    by (cases Gs; cases "tl Gs"; cases "tl (tl Gs)") auto
  from oslot[of 0 a] oslot[of 1 b] oslot[of 2 c] sl Gs show ?thesis by auto
qed

lemma real_of_nat_nat: "0 \<le> (z::int) \<Longrightarrow> real_of_int z = real (nat z)"
  by simp

lemma effectiveRuns_nat:
  assumes "rq \<noteq> Some NaN"
  shows "\<exists>j :: nat. effectiveRuns lo hi rq = Fin (real j)"
proof (cases rq)
  case None
  have "effectiveRuns lo hi None = Fin (real (min (max 4 lo) hi))"
    by (simp add: effectiveRuns_def clamp_def min_def max_def)
  with None show ?thesis by blast
next
  case (Some v)
  show ?thesis
  proof (cases v)
    case NaN
    with Some assms show ?thesis by simp
  next
    case PosInf
    with Some show ?thesis by (auto simp: effectiveRuns_def clamp_def)
  next
    case NegInf
    have "effectiveRuns lo hi (Some NegInf) = Fin (real (min lo hi))"
      by (simp add: effectiveRuns_def clamp_def min_def)
    with Some NegInf show ?thesis by blast
  next
    case (Fin x)
    let ?z = "min (max \<lfloor>x\<rfloor> (int lo)) (int hi)"
    have e: "effectiveRuns lo hi (Some (Fin x)) = Fin (of_int ?z)"
      by (simp add: effectiveRuns_def clamp_def min_def max_def)
    have "0 \<le> ?z" by linarith
    then have "real_of_int ?z = real (nat ?z)" by (rule real_of_nat_nat)
    with e have "effectiveRuns lo hi (Some (Fin x)) = Fin (real (nat ?z))" by (simp only:)
    with Some Fin show ?thesis by blast
  qed
qed

lemma arrayLength_nat: "arrayLength (Fin (real j)) = Inr n \<Longrightarrow> n = j"
  by (auto simp: arrayLength_def split: if_splits)

lemma POST_comparison_valid:
  assumes "response (POST k e parsed uuid timeline) = Some (Comparison p a b c)"
  shows "\<not> promptMissing parsed" "\<not> missing (OPENAI_API_KEY e)" "\<not> missing (EIGENAI_API_KEY e)"
proof -
  show 1: "\<not> promptMissing parsed"
    using assms POST_prompt_missing[of parsed k e uuid timeline] by auto
  show 2: "\<not> missing (OPENAI_API_KEY e)"
    using assms POST_key_missing(1)[OF 1, of e k uuid timeline] by auto
  show "\<not> missing (EIGENAI_API_KEY e)"
    using assms 2 POST_key_missing(2)[OF 1, of e k uuid timeline] by auto
qed

text \<open>
  The groups of a comparison that is sent: each carries the run count in its \<open>runs\<close>
  field, the three \<open>responses\<close> arrays have the length that \<open>Array.from\<close> makes of
  the run count, and that length is the \<open>runs\<close> field unless \<open>runs\<close> of the request
  is NaN.
\<close>

lemma comparison_groups_shape:
  assumes "response (POST k e parsed uuid timeline) = Some (Comparison p a b c)"
  shows "groupRuns a = effectiveRuns (MIN_RUNS k) (MAX_RUNS k) (requestedRuns parsed)
       \<and> groupRuns b = effectiveRuns (MIN_RUNS k) (MAX_RUNS k) (requestedRuns parsed)
       \<and> groupRuns c = effectiveRuns (MIN_RUNS k) (MAX_RUNS k) (requestedRuns parsed)
       \<and> arrayLength (effectiveRuns (MIN_RUNS k) (MAX_RUNS k) (requestedRuns parsed))
           = Inr (length (groupResponses a))
       \<and> length (groupResponses b) = length (groupResponses a)
       \<and> length (groupResponses c) = length (groupResponses a)
       \<and> (requestedRuns parsed \<noteq> Some NaN \<longrightarrow>
            Fin (real (length (groupResponses a))) = groupRuns a
            \<and> Fin (real (length (groupResponses b))) = groupRuns b
            \<and> Fin (real (length (groupResponses c))) = groupRuns c)"
proof -
  let ?R = "effectiveRuns (MIN_RUNS k) (MAX_RUNS k) (requestedRuns parsed)"
  note v = POST_comparison_valid[OF assms]
  from v obtain o1 o2 o3 where
    P: "POST k e parsed uuid timeline = compareAll o1 o2 o3 timeline"
    and R: "openAiOptions.runs o1 = ?R" "openAiOptions.runs o2 = ?R" "openAiOptions.runs o3 = ?R"
    by (rule POST_valid)
  from assms P have C: "response (compareAll o1 o2 o3 timeline) = Some (Comparison p a b c)"
    by simp
  obtain n where n: "arrayLength ?R = Inr n"
    using C by (cases "arrayLength ?R") (simp_all add: compareAll_def R)
  let ?st = "fold (deliver o1 o2 o3) timeline (start o1 o2 o3 n)"
  have sh: "shaped o1 o2 o3 n ?st"
    unfolding start_stateOf by (rule shaped_fold) (rule shaped_stateOf)
  obtain Gs where Gs: "settledAs (outer ?st) = Some (Fulfilled Gs)"
  proof (cases "settledAs (outer ?st)")
    case None
    with C show ?thesis by (simp add: compareAll_def R n Let_def)
  next
    case (Some s)
    with C that show ?thesis by (cases s) (simp_all add: compareAll_def R n Let_def)
  qed
  from shaped_result[OF sh Gs] obtain xs ys zs where
    l: "length xs = n" "length ys = n" "length zs = n"
    and G: "Gs = [wrap o1 o2 o3 0 xs, wrap o1 o2 o3 1 ys, wrap o1 o2 o3 2 zs]"
    by blast
  from C have abc: "a = wrap o1 o2 o3 0 xs" "b = wrap o1 o2 o3 1 ys" "c = wrap o1 o2 o3 2 zs"
    by (simp_all add: compareAll_def R n Let_def Gs G)
  have runs: "groupRuns a = ?R" "groupRuns b = ?R" "groupRuns c = ?R"
    by (simp_all add: abc groupRuns_wrap R)
  have lens: "length (groupResponses a) = n" "length (groupResponses b) = n"
    "length (groupResponses c) = n"
    by (simp_all add: abc groupResponses_wrap l)
  have fin: "Fin (real n) = ?R" if "requestedRuns parsed \<noteq> Some NaN"
  proof -
    from effectiveRuns_nat[OF that] obtain j :: nat where j: "?R = Fin (real j)" by blast
    with n have "arrayLength (Fin (real j)) = Inr n" by simp
    then have "n = j" by (rule arrayLength_nat)
    with j show ?thesis by simp
  qed
  from runs lens n fin show ?thesis by simp
qed

lemma exampleUuid_seed: "uuidToSeed exampleUuid = 1954201867"
  unfolding exampleUuid_def by code_simp

text \<open>
  C10. A request whose \<open>runs\<close> is NaN passes the clamp as NaN: no upstream call is
  issued, the comparison is sent at once, and each of its groups has \<open>runs\<close> NaN and
  an empty \<open>responses\<close> array, whose length \<open>0\<close> is not its \<open>runs\<close> field.
\<close>

theorem nan_runs_empty_groups:
  "POST exampleConstants exampleEnv (Some (exampleRequest ''hi'' (Some NaN))) exampleUuid []
     = \<lparr>response =
          Some (Comparison (utf16 ''hi'')
                  (OpenAiGroup (utf16 ''openai-model'') NaN [])
                  (EigenGroup (utf16 ''eigen-model'') (Fin 42) NaN [] None)
                  (EigenGroup (utf16 ''eigen-model'') (Fin 1954201867) NaN []
                     (Some exampleUuid))),
        logged = [], issued = []\<rparr>"
proof -
  have t: "trim (utf16 ''hi'') = utf16 ''hi''"
    by (simp add: trim_def utf16_def isWhiteSpace_def)
  have r: "effectiveRuns lo hi (Some NaN) = NaN" for lo hi
    by (simp add: effectiveRuns_def clamp_def)
  show ?thesis
    by (simp add: POST_def exampleRequest_def exampleEnv_def exampleConstants_def t r
        exampleUuid_seed compareAll_def arrayLength_def start_def allInit_def notify_def
        groupPromise_def collectOpenAiRuns_def collectEigenRuns_def allSettle_def Let_def
        numeral_3_eq_3)
      (simp add: utf16_def)
qed

end
